theory Spec2Isabelle
  imports Complex_Main "HOL-Library.Sublist" "HOL-Library.Multiset"
begin

section \<open>Data model\<close>

text \<open>
  Python's \<open>str\<close> is a sequence of Unicode code points, and the program works on Chinese
  text, so a string is modelled as the list of its code points; \<open>len\<close> is \<open>length\<close>.
  Python's \<open>float\<close> is modelled by \<open>real\<close>; rounding is not modelled. The values
  compared in the concrete evaluations below are exact in binary floating point or far
  apart.
\<close>

type_synonym str = "nat list"

datatype error =
  RecursionError | KeyError | IndexError | ValueError | ZeroDivisionError | BackendError

text \<open>\<open>query_structures.py\<close>: the three dataclasses. \<open>depends_on\<close> defaults to \<open>None\<close>.\<close>

record QueryIntent =
  intent_type :: str
  complexity_score :: real
  key_concepts :: "str list"
  question_type :: str
  requires_decomposition :: bool
  reasoning :: str

record SubQuery =
  query :: str
  intent :: str
  priority :: int
  depends_on :: "int list option"
  context_needed :: bool

record DecompositionResult =
  original_query :: str
  dr_intent :: QueryIntent
  sub_queries :: "SubQuery list"
  execution_plan :: "int list"

section \<open>Python string operations\<close>

text \<open>ASCII literals of the source, as code points.\<close>

definition ascii :: "string \<Rightarrow> str" where
  "ascii s = map of_char s"

text \<open>\<open>sub in s\<close> on strings: \<open>sub\<close> occurs as a contiguous slice of \<open>s\<close>.\<close>

fun str_in :: "str \<Rightarrow> str \<Rightarrow> bool" where
  "str_in sub [] = (sub = [])"
| "str_in sub (c # cs) = (prefix sub (c # cs) \<or> str_in sub cs)"

text \<open>\<open>any(word in query for word in words)\<close>.\<close>

definition any_in :: "str list \<Rightarrow> str \<Rightarrow> bool" where
  "any_in words q = list_ex (\<lambda>word. str_in word q) words"

text \<open>
  The code points for which \<open>str.isspace\<close> holds; \<open>str.split()\<close> without arguments
  splits on runs of them and \<open>str.strip()\<close> removes them at both ends.
\<close>

definition is_space :: "nat \<Rightarrow> bool" where
  "is_space c \<longleftrightarrow>
     (9 \<le> c \<and> c \<le> 13) \<or> (28 \<le> c \<and> c \<le> 32) \<or> c = 133 \<or> c = 160 \<or> c = 5760 \<or>
     (8192 \<le> c \<and> c \<le> 8202) \<or> c = 8232 \<or> c = 8233 \<or> c = 8239 \<or> c = 8287 \<or>
     c = 12288"

fun split_ws :: "str \<Rightarrow> str \<Rightarrow> str list" where
  "split_ws cur [] = (if cur = [] then [] else [cur])"
| "split_ws cur (c # cs) =
     (if is_space c
      then (if cur = [] then split_ws [] cs else cur # split_ws [] cs)
      else split_ws (cur @ [c]) cs)"

definition py_split :: "str \<Rightarrow> str list" where
  "py_split s = split_ws [] s"

definition py_strip :: "str \<Rightarrow> str" where
  "py_strip s = rev (dropWhile is_space (rev (dropWhile is_space s)))"

text \<open>\<open>sep.join(parts)\<close>.\<close>

fun py_join :: "str \<Rightarrow> str list \<Rightarrow> str" where
  "py_join sep [] = []"
| "py_join sep [p] = p"
| "py_join sep (p # ps) = p @ sep @ py_join sep ps"

text \<open>\<open>xs[:k]\<close> for an integer \<open>k\<close>: a negative \<open>k\<close> counts from the end.\<close>

definition py_take :: "int \<Rightarrow> 'a list \<Rightarrow> 'a list" where
  "py_take k xs = (if 0 \<le> k then take (nat k) xs else take (length xs - nat (- k)) xs)"

text \<open>\<open>str(n)\<close> of a natural number, in decimal.\<close>

fun str_of_nat :: "nat \<Rightarrow> str" where
  "str_of_nat n = (if n < 10 then [48 + n] else str_of_nat (n div 10) @ [48 + n mod 10])"

declare str_of_nat.simps [simp del]

text \<open>
  \<open>f"{x:.1f}"\<close> of a non-negative number: the nearest multiple of one tenth. The scores
  formatted below are sums of a multiple of 1/50 (or 3) and multiples of 1/2, never half-way
  between two tenths, so the rounding direction at a tie does not arise.
\<close>

definition format_1f :: "real \<Rightarrow> str" where
  "format_1f x =
     (let t = nat \<lfloor>x * 10 + 1 / 2\<rfloor>
      in str_of_nat (t div 10) @ ascii ''.'' @ str_of_nat (t mod 10))"

section \<open>Execution planner\<close>

text \<open>
  \<open>_generate_execution_plan\<close> keeps three mutable variables that the nested function
  \<open>dfs\<close> closes over; they are passed explicitly.
\<close>

record dfs_state =
  plan :: "int list"
  visited :: "int set"
  temp_visited :: "int set"

text \<open>\<open>dependency_graph[i] = sq.depends_on or []\<close> for every index of the list.\<close>

definition dependency_graph :: "SubQuery list \<Rightarrow> int \<Rightarrow> int list option" where
  "dependency_graph sqs node =
     (if 0 \<le> node \<and> node < int (length sqs)
      then Some (case depends_on (sqs ! nat node) of None \<Rightarrow> [] | Some ds \<Rightarrow> ds)
      else None)"

text \<open>
  The recursive \<open>dfs\<close> and its \<open>for dep in ...\<close> loop. The first argument is the
  number of nested \<open>dfs\<close> frames the interpreter still allows: Python raises
  \<open>RecursionError\<close> when it is exhausted. \<open>temp_visited.remove(node)\<close> raises
  \<open>KeyError\<close> when the node is absent.
\<close>

fun dfs :: "nat \<Rightarrow> SubQuery list \<Rightarrow> int \<Rightarrow> dfs_state \<Rightarrow> error + dfs_state"
  and dfs_deps :: "nat \<Rightarrow> SubQuery list \<Rightarrow> int list \<Rightarrow> dfs_state \<Rightarrow> error + dfs_state"
where
  "dfs 0 sqs node s = Inl RecursionError"
| "dfs (Suc k) sqs node s =
     (if node \<in> temp_visited s then Inr s
      else if node \<in> visited s then Inr s
      else
        (case dfs_deps k sqs
                (case dependency_graph sqs node of None \<Rightarrow> [] | Some ds \<Rightarrow> ds)
                (s\<lparr>temp_visited := insert node (temp_visited s)\<rparr>) of
           Inl e \<Rightarrow> Inl e
         | Inr s' \<Rightarrow>
             if node \<in> temp_visited s'
             then Inr (s'\<lparr>temp_visited := temp_visited s' - {node},
                          visited := insert node (visited s'),
                          plan := plan s' @ [node]\<rparr>)
             else Inl KeyError))"
| "dfs_deps k sqs [] s = Inr s"
| "dfs_deps k sqs (dep # deps) s =
     (if dep < int (length sqs)
      then (case dfs k sqs dep s of
              Inl e \<Rightarrow> Inl e
            | Inr s' \<Rightarrow> dfs_deps k sqs deps s')
      else dfs_deps k sqs deps s)"

text \<open>\<open>sorted(range(len(sub_queries)), key=lambda x: sub_queries[x].priority)\<close>: a stable sort.\<close>

definition nodes_by_priority :: "SubQuery list \<Rightarrow> int list" where
  "nodes_by_priority sqs =
     map int (sort_key (\<lambda>x. priority (sqs ! x)) [0..<length sqs])"

text \<open>The final loop \<open>for node in nodes_by_priority: if node not in visited: dfs(node)\<close>.\<close>

fun visit_all :: "nat \<Rightarrow> SubQuery list \<Rightarrow> int list \<Rightarrow> dfs_state \<Rightarrow> error + dfs_state" where
  "visit_all k sqs [] s = Inr s"
| "visit_all k sqs (node # nodes) s =
     (if node \<notin> visited s
      then (case dfs k sqs node s of
              Inl e \<Rightarrow> Inl e
            | Inr s' \<Rightarrow> visit_all k sqs nodes s')
      else visit_all k sqs nodes s)"

definition generate_execution_plan :: "nat \<Rightarrow> SubQuery list \<Rightarrow> error + int list" where
  "generate_execution_plan depth sqs =
     (if sqs = [] then Inr []
      else (case visit_all depth sqs (nodes_by_priority sqs)
                   \<lparr>plan = [], visited = {}, temp_visited = {}\<rparr> of
              Inl e \<Rightarrow> Inl e
            | Inr s \<Rightarrow> Inr (plan s)))"

text \<open>
  What one call of \<open>dfs\<close> (or one run of its loop) guarantees about the state it returns:
  it returns normally, the traversal stack is as before, nothing is removed from
  \<open>visited\<close>, nothing on the stack becomes visited, and a plan that lists the visited
  nodes without repetition still does so.
\<close>

definition dfs_ok :: "dfs_state \<Rightarrow> error + dfs_state \<Rightarrow> bool" where
  "dfs_ok s r =
     (case r of
        Inl e \<Rightarrow> False
      | Inr s' \<Rightarrow>
          temp_visited s' = temp_visited s \<and>
          visited s \<subseteq> visited s' \<and>
          visited s' \<inter> temp_visited s \<subseteq> visited s \<and>
          (distinct (plan s) \<and> set (plan s) = visited s
             \<longrightarrow> distinct (plan s') \<and> set (plan s') = visited s'))"

text \<open>Sub-queries with given priority and dependencies, for the examples.\<close>

definition sq_example :: "int \<Rightarrow> int list \<Rightarrow> SubQuery" where
  "sq_example p ds =
     \<lparr>query = [], intent = [], priority = p, depends_on = Some ds, context_needed = False\<rparr>"

text \<open>
  Notions for stating the order of a plan. The planner follows a dependency \<open>dep\<close> of a
  node when \<open>dep < len(sub_queries)\<close>; \<open>dep_edges\<close> is the relation "node follows
  dependency". A plan puts dependencies first when every followed dependency of an entry
  occurs before that entry. \<open>dfs_post\<close> is what a call of the traversal preserves for this
  order.
\<close>

definition followed_deps :: "SubQuery list \<Rightarrow> int \<Rightarrow> int list" where
  "followed_deps sqs node =
     filter (\<lambda>dep. dep < int (length sqs))
       (case dependency_graph sqs node of None \<Rightarrow> [] | Some ds \<Rightarrow> ds)"

definition dep_edges :: "SubQuery list \<Rightarrow> (int \<times> int) set" where
  "dep_edges sqs = {(i, j). j \<in> set (followed_deps sqs i)}"

definition deps_first :: "(int \<times> int) set \<Rightarrow> int list \<Rightarrow> bool" where
  "deps_first E p \<longleftrightarrow> (\<forall>pre v post. p = pre @ v # post \<longrightarrow> (\<forall>w. (v, w) \<in> E \<longrightarrow> w \<in> set pre))"

definition dfs_post :: "(int \<times> int) set \<Rightarrow> dfs_state \<Rightarrow> dfs_state \<Rightarrow> bool" where
  "dfs_post E s s' \<longleftrightarrow>
     deps_first E (plan s') \<and> set (plan s') = visited s' \<and> temp_visited s' = temp_visited s
     \<and> visited s \<subseteq> visited s'"

section \<open>Intent analysis and query decomposition\<close>

text \<open>
  The keyword tables of \<open>_rule_based_intent_analysis\<close>, as code points
  (for instance \<open>[27604, 36739]\<close> is the word for "compare", U+6BD4 U+8F83, and
  \<open>[21644]\<close> the connective "and", U+548C).
\<close>

definition complex_keywords :: "str list" where
  "complex_keywords =
     [[27604, 36739], [23545, 27604], [20998, 26512], [35780, 20272], [24635, 32467],
      [24402, 32435], [22914, 20309], [20026, 20160, 20040], [21407, 22240],
      [24433, 21709], [20851, 31995]]"

definition connectors :: "str list" where
  "connectors =
     [[21644], [19982], [20197, 21450], [21516, 26102], [21478, 22806], [27492, 22806],
      [32780, 19988], [24182, 19988]]"

definition comparative_words :: "str list" where
  "comparative_words = [[27604, 36739], [23545, 27604], [21306, 21035]]"

definition multi_aspect_words :: "str list" where
  "multi_aspect_words = [[21644], [19982], [20197, 21450]]"

definition procedural_words :: "str list" where
  "procedural_words = [[22914, 20309], [24590, 20040], [27493, 39588], [26041, 27861]]"

definition analytical_words :: "str list" where
  "analytical_words = [[20026, 20160, 20040], [21407, 22240], [20998, 26512], [35780, 20272]]"

definition concept_stop_words :: "str list" where
  "concept_stop_words =
     [[22914, 20309], [20026, 20160, 20040], [20160, 20040], [21738, 20123], [24590, 20040]]"

text \<open>The configuration dictionary of the decomposer (the two keys the code reads).\<close>

record decomposer_config =
  decomposition_threshold :: real
  max_sub_queries :: int

definition default_config :: decomposer_config where
  "default_config = \<lparr>decomposition_threshold = 6, max_sub_queries = 5\<rparr>"

text \<open>
  The two keyword loops of the score: \<open>for keyword in keywords: if keyword in query:
  complexity_score += w\<close>, with \<open>w = 1.5\<close> for the first table and \<open>w = 1.0\<close> for the
  second.
\<close>

fun add_if_present :: "real \<Rightarrow> str list \<Rightarrow> str \<Rightarrow> real \<Rightarrow> real" where
  "add_if_present w [] q s = s"
| "add_if_present w (keyword # keywords) q s =
     add_if_present w keywords q (if str_in keyword q then s + w else s)"

text \<open>
  The score before clamping: the length term, the two keyword loops, then the two
  question-mark counts (\<open>?\<close> is 63, the full-width question mark is 65311).
\<close>

definition raw_complexity_score :: "str \<Rightarrow> real" where
  "raw_complexity_score q =
     add_if_present 1 connectors q
       (add_if_present (3 / 2) complex_keywords q (0 + min (real (length q) / 50) 3))
     + (real (count_list q 63) * (1 / 2) + real (count_list q 65311) * (1 / 2))"

definition rule_based_intent_analysis :: "decomposer_config \<Rightarrow> str \<Rightarrow> QueryIntent" where
  "rule_based_intent_analysis cfg q =
     (let score = raw_complexity_score q;
          itype =
            (if any_in comparative_words q then ascii ''comparative''
             else if any_in multi_aspect_words q \<and> score > 5 then ascii ''multi_aspect''
             else if score > 6 then ascii ''complex''
             else ascii ''simple'');
          qtype =
            (if any_in procedural_words q then ascii ''procedural''
             else if any_in analytical_words q then ascii ''analytical''
             else if any_in comparative_words q then ascii ''comparative''
             else ascii ''factual'');
          concepts = filter (\<lambda>word. length word > 2 \<and> word \<notin> set concept_stop_words)
                       (py_split q)
      in \<lparr>intent_type = itype,
          complexity_score = min score 10,
          key_concepts = take 5 concepts,
          question_type = qtype,
          requires_decomposition = (score \<ge> decomposition_threshold cfg),
          reasoning =
            [22522, 20110, 35268, 21017, 20998, 26512, 65292, 22797, 26434, 24230, 35780,
             20998, 58, 32] @ format_1f score\<rparr>)"

text \<open>
  The language model is an external collaborator. What the two \<open>try\<close> blocks obtain from
  it is modelled by two functions: the intent parsed from its reply, and the sub-queries
  parsed from its reply, each \<open>None\<close> when the block falls through (no assistant reply, no
  JSON object, or an exception) to the rule-based code.
\<close>

record llm_decomposer =
  llm_intent :: "str \<Rightarrow> QueryIntent option"
  llm_sub_queries :: "str \<Rightarrow> QueryIntent \<Rightarrow> SubQuery list option"

definition analyze_query_intent ::
  "llm_decomposer option \<Rightarrow> decomposer_config \<Rightarrow> str \<Rightarrow> QueryIntent" where
  "analyze_query_intent llm cfg q =
     (case llm of
        None \<Rightarrow> rule_based_intent_analysis cfg q
      | Some m \<Rightarrow>
          (case llm_intent m q of
             Some i \<Rightarrow> i
           | None \<Rightarrow> rule_based_intent_analysis cfg q))"

text \<open>\<open>SubQuery(query=..., intent=..., priority=...)\<close> with the two defaults.\<close>

definition SubQuery3 :: "str \<Rightarrow> str \<Rightarrow> int \<Rightarrow> SubQuery" where
  "SubQuery3 q i p =
     \<lparr>query = q, intent = i, priority = p, depends_on = None, context_needed = False\<rparr>"

definition decompose_comparative_query :: "str \<Rightarrow> QueryIntent \<Rightarrow> SubQuery list" where
  "decompose_comparative_query q i =
     (let concepts = key_concepts i
      in if length concepts \<ge> 2
         then
           map (\<lambda>concept.
                  SubQuery3 (concept @ [30340, 29305, 28857, 21644, 23646, 24615])
                    ([20102, 35299] @ concept @ [30340, 22522, 26412, 20449, 24687]) 1)
               (take 2 concepts)
           @ [\<lparr>query = concepts ! 0 @ [21644] @ concepts ! 1
                         @ [30340, 27604, 36739, 20998, 26512],
               intent = [27604, 36739, 20998, 26512, 20004, 32773, 30340, 24046, 24322],
               priority = 2,
               depends_on = Some [0, 1],
               context_needed = True\<rparr>]
         else [])"

definition decompose_multi_aspect_query :: "str \<Rightarrow> QueryIntent \<Rightarrow> SubQuery list" where
  "decompose_multi_aspect_query q i =
     (let sqs =
            map (\<lambda>concept.
                   SubQuery3
                     (concept @ [30340, 35814, 32454, 20449, 24687, 21644, 30456, 20851,
                                 20869, 23481])
                     ([20102, 35299] @ concept @ [30340, 20855, 20307, 24773, 20917]) 1)
                (take 3 (key_concepts i))
      in if length (key_concepts i) > 1
         then sqs @
              [\<lparr>query = py_join [12289] (take 3 (key_concepts i))
                          @ [20043, 38388, 30340, 20851, 31995, 21644, 32508, 21512, 20998,
                             26512],
                intent = [32508, 21512, 20998, 26512, 21508, 26041, 38754, 30340, 20851,
                          31995],
                priority = 2,
                depends_on = Some (map int [0..<length sqs]),
                context_needed = True\<rparr>]
         else sqs)"

definition decompose_complex_query :: "str \<Rightarrow> QueryIntent \<Rightarrow> SubQuery list" where
  "decompose_complex_query q i =
     (if question_type i = ascii ''procedural''
      then [SubQuery3
              ((case key_concepts i of [] \<Rightarrow> [] | c # _ \<Rightarrow> c)
                 @ [30340, 22522, 26412, 27010, 24565, 21644, 23450, 20041])
              [20102, 35299, 22522, 26412, 27010, 24565] 1,
            \<lparr>query = q @ [30340, 20855, 20307, 27493, 39588, 21644, 26041, 27861],
              intent = [33719, 21462, 20855, 20307, 25805, 20316, 27493, 39588],
              priority = 2,
              depends_on = Some [0],
              context_needed = True\<rparr>]
      else if question_type i = ascii ''analytical''
      then (case key_concepts i of
              [] \<Rightarrow> []
            | main_concept # _ \<Rightarrow>
                [SubQuery3
                   (main_concept @ [30340, 22522, 26412, 24773, 20917, 21644, 32972, 26223])
                   [20102, 35299, 32972, 26223, 20449, 24687] 1,
                 \<lparr>query = main_concept
                            @ [30340, 24433, 21709, 22240, 32032, 21644, 21407, 22240, 20998,
                               26512],
                   intent = [20998, 26512, 24433, 21709, 22240, 32032],
                   priority = 2,
                   depends_on = Some [0],
                   context_needed = True\<rparr>])
      else map (\<lambda>concept.
                  SubQuery3 (concept @ [30340, 35814, 32454, 20449, 24687])
                    ([20102, 35299] @ concept) 1)
               (take 2 (key_concepts i)))"

definition rule_based_decomposition :: "str \<Rightarrow> QueryIntent \<Rightarrow> SubQuery list" where
  "rule_based_decomposition q i =
     (if intent_type i = ascii ''comparative'' then decompose_comparative_query q i
      else if intent_type i = ascii ''multi_aspect'' then decompose_multi_aspect_query q i
      else if intent_type i = ascii ''complex'' then decompose_complex_query q i
      else [SubQuery3 q (ascii ''simple'') 1])"

definition decompose_query ::
  "llm_decomposer option \<Rightarrow> decomposer_config \<Rightarrow> str \<Rightarrow> QueryIntent \<Rightarrow> SubQuery list" where
  "decompose_query llm cfg q i =
     (case llm of
        None \<Rightarrow> rule_based_decomposition q i
      | Some m \<Rightarrow>
          (case llm_sub_queries m q i of
             Some sqs \<Rightarrow> py_take (max_sub_queries cfg) sqs
           | None \<Rightarrow> rule_based_decomposition q i))"

text \<open>
  \<open>analyze_and_decompose\<close>. The first argument is the recursion depth available to the
  planner; an exception of the planner propagates.
\<close>

definition analyze_and_decompose ::
  "nat \<Rightarrow> llm_decomposer option \<Rightarrow> decomposer_config \<Rightarrow> str \<Rightarrow> error + DecompositionResult"
where
  "analyze_and_decompose depth llm cfg q =
     (let i = analyze_query_intent llm cfg q
      in if \<not> requires_decomposition i
         then Inr \<lparr>original_query = q, dr_intent = i,
                   sub_queries = [SubQuery3 q (ascii ''simple'') 1],
                   execution_plan = [0]\<rparr>
         else
           (let sqs = decompose_query llm cfg q i
            in case generate_execution_plan depth sqs of
                 Inl e \<Rightarrow> Inl e
               | Inr p \<Rightarrow>
                   Inr \<lparr>original_query = q, dr_intent = i,
                        sub_queries = sqs, execution_plan = p\<rparr>))"

text \<open>
  Example questions. \<open>question_compare_A_B\<close> is the scenario question of the
  specification, "compare the advantages and disadvantages of A and B" (nine code points,
  U+6BD4 U+8F83 A U+548C B U+7684 U+4F18 U+7F3A U+70B9, without white space).
  \<open>question_many_keywords\<close> strings together seven of the keywords and one connective.
  \<open>question_python_java\<close> is "compare Python Java", the three words separated by spaces.
\<close>

definition question_compare_A_B :: str where
  "question_compare_A_B = [27604, 36739, 65, 21644, 66, 30340, 20248, 32570, 28857]"

definition question_many_keywords :: str where
  "question_many_keywords =
     [27604, 36739, 21644, 23545, 27604, 20998, 26512, 35780, 20272, 24635, 32467,
      24402, 32435, 22914, 20309]"

definition question_python_java :: str where
  "question_python_java = [27604, 36739] @ ascii '' Python Java''"

section \<open>Retrieved chunks\<close>

text \<open>
  A retrieved chunk is a Python dictionary. The record has one optional field for each key
  that the modelled code reads or writes; \<open>None\<close> means that the key is absent, so
  \<open>result.get(key, default)\<close> is a \<open>case\<close> on the field.
\<close>

record result =
  content :: "str option"
  score :: "real option"
  chunk_type :: "str option"
  page_num :: "int option"
  chunk_index :: "int option"
  priority_score :: "real option"
  content_category :: "str option"
  combined_score :: "real option"
  rerank_score :: "real option"
  semantic_score :: "real option"
  keyword_score :: "real option"
  content_type_score :: "real option"
  position_score :: "real option"

text \<open>\<open>d.get(key, default)\<close>.\<close>

definition get_or :: "'a option \<Rightarrow> 'a \<Rightarrow> 'a" where
  "get_or entry dflt = (case entry of None \<Rightarrow> dflt | Some v \<Rightarrow> v)"

text \<open>A dictionary that holds only \<open>content\<close>, \<open>score\<close> and \<open>chunk_type\<close>, for the examples.\<close>

definition chunk :: "str \<Rightarrow> real \<Rightarrow> str \<Rightarrow> result" where
  "chunk c s t =
     \<lparr>content = Some c, score = Some s, chunk_type = Some t, page_num = None,
      chunk_index = None, priority_score = None, content_category = None,
      combined_score = None, rerank_score = None, semantic_score = None,
      keyword_score = None, content_type_score = None, position_score = None\<rparr>"

section \<open>Reranker\<close>

text \<open>\<open>self.content_type_weights\<close> and \<open>_calculate_content_type_scores\<close>.\<close>

definition content_type_weights :: "str \<rightharpoonup> real" where
  "content_type_weights =
     [ascii ''text'' \<mapsto> 1, ascii ''table'' \<mapsto> 9 / 10, ascii ''image'' \<mapsto> 8 / 10]"

definition content_type_score_of :: "result \<Rightarrow> real" where
  "content_type_score_of r =
     (let content_type = get_or (chunk_type r) (ascii ''text'')
      in get_or (content_type_weights content_type) (1 / 2))"

definition calculate_content_type_scores :: "result list \<Rightarrow> real list" where
  "calculate_content_type_scores results = map content_type_score_of results"

text \<open>
  The two tables of the Python runtime that the keyword extraction uses and that are not
  part of the program: \<open>str.lower\<close> and the character class \<open>\w\<close> of the \<open>re\<close> module.
\<close>

record unicode_db =
  str_lower :: "str \<Rightarrow> str"
  is_word :: "nat \<Rightarrow> bool"

text \<open>The character range U+4E00 to U+9FFF of the two regular expressions.\<close>

definition is_cjk :: "nat \<Rightarrow> bool" where
  "is_cjk c \<longleftrightarrow> 19968 \<le> c \<and> c \<le> 40959"

text \<open>\<open>re.findall\<close> with a run of characters of that range as the pattern: the maximal runs.\<close>

fun cjk_runs :: "str \<Rightarrow> str \<Rightarrow> str list" where
  "cjk_runs cur [] = (if cur = [] then [] else [cur])"
| "cjk_runs cur (c # cs) =
     (if is_cjk c then cjk_runs (cur @ [c]) cs
      else if cur = [] then cjk_runs [] cs
      else cur # cjk_runs [] cs)"

definition stop_words :: "str list" where
  "stop_words =
     [[30340], [20102], [22312], [26159], [25105], [26377], [21644], [23601], [19981],
      [20154], [37117], [19968], [19968, 20010], [19978], [20063], [24456], [21040],
      [35828], [35201], [21435], [20320], [20250], [30528], [27809, 26377], [30475],
      [22909], [33258, 24049], [36825]]"

text \<open>
  \<open>_extract_keywords\<close>. \<open>list(set(keywords))\<close> removes duplicates; the order of the
  result is not used by the callers.
\<close>

definition extract_keywords :: "unicode_db \<Rightarrow> str \<Rightarrow> str list" where
  "extract_keywords u text0 =
     (if text0 = [] then []
      else
        (let text1 = str_lower u text0;
             text2 = map (\<lambda>c. if is_word u c \<or> is_space c \<or> is_cjk c then c else 32) text1;
             words = py_split text2;
             keywords = filter (\<lambda>word. length word > 1 \<and> word \<notin> set stop_words) words
         in remdups (keywords @ cjk_runs [] text2)))"

text \<open>\<open>s.find(sub)\<close>, with \<open>None\<close> for \<open>-1\<close>, and \<open>s.count(sub)\<close> (occurrences that do not overlap).\<close>

fun find_from :: "nat \<Rightarrow> str \<Rightarrow> str \<Rightarrow> nat option" where
  "find_from i sub [] = (if sub = [] then Some i else None)"
| "find_from i sub (c # cs) =
     (if prefix sub (c # cs) then Some i else find_from (Suc i) sub cs)"

definition py_find :: "str \<Rightarrow> str \<Rightarrow> nat option" where
  "py_find s sub = find_from 0 sub s"

fun count_from :: "nat \<Rightarrow> str \<Rightarrow> str \<Rightarrow> nat" where
  "count_from skip sub [] = 0"
| "count_from skip sub (c # cs) =
     (if 0 < skip then count_from (skip - 1) sub cs
      else if prefix sub (c # cs) then Suc (count_from (length sub - 1) sub cs)
      else count_from 0 sub cs)"

definition py_count :: "str \<Rightarrow> str \<Rightarrow> nat" where
  "py_count s sub = (if sub = [] then length s + 1 else count_from 0 sub s)"

definition calculate_keyword_position_bonus :: "unicode_db \<Rightarrow> str list \<Rightarrow> str \<Rightarrow> real" where
  "calculate_keyword_position_bonus u keywords c =
     (if keywords = [] \<or> c = [] then 0
      else
        (let content_lower = str_lower u c;
             total_bonus =
               sum_list
                 (map (\<lambda>keyword.
                         case py_find content_lower (str_lower u keyword) of
                           None \<Rightarrow> 0
                         | Some pos \<Rightarrow> 1 - real pos / real (length c))
                    keywords)
         in total_bonus / real (length keywords)))"

definition calculate_keyword_frequency_bonus :: "unicode_db \<Rightarrow> str list \<Rightarrow> str \<Rightarrow> real" where
  "calculate_keyword_frequency_bonus u keywords c =
     (if keywords = [] \<or> c = [] then 0
      else
        (let content_lower = str_lower u c;
             total_frequency =
               sum_list
                 (map (\<lambda>keyword.
                         ln (1 + real (py_count content_lower (str_lower u keyword))))
                    keywords)
         in min (total_frequency / real (length keywords)) 1))"

text \<open>The body of the loop of \<open>_calculate_keyword_scores\<close>, and the loop.\<close>

definition keyword_score_of :: "unicode_db \<Rightarrow> str list \<Rightarrow> result \<Rightarrow> real" where
  "keyword_score_of u query_keywords r =
     (let c = get_or (content r) [];
          content_keywords = extract_keywords u c;
          overlap_score =
            (if query_keywords = [] then 0
             else real (card (set query_keywords \<inter> set content_keywords))
                    / real (length query_keywords));
          position_bonus = calculate_keyword_position_bonus u query_keywords c;
          frequency_bonus = calculate_keyword_frequency_bonus u query_keywords c
      in min (overlap_score + position_bonus * (2 / 10) + frequency_bonus * (1 / 10)) 1)"

definition calculate_keyword_scores :: "unicode_db \<Rightarrow> str \<Rightarrow> result list \<Rightarrow> real list" where
  "calculate_keyword_scores u q results =
     map (keyword_score_of u (extract_keywords u q)) results"

text \<open>
  The embedding model is an external collaborator: given the query and the list of
  contents it returns one similarity per content, or fails (\<open>None\<close>), in which case
  \<open>_calculate_semantic_scores\<close> falls back to the retrieval scores, as it does when there
  is no model.
\<close>

type_synonym rerank_model = "str \<Rightarrow> str list \<Rightarrow> real list option"

definition calculate_semantic_scores ::
  "rerank_model option \<Rightarrow> str \<Rightarrow> result list \<Rightarrow> real list" where
  "calculate_semantic_scores m q results =
     (case m of
        None \<Rightarrow> map (\<lambda>r. get_or (score r) 0) results
      | Some encode \<Rightarrow>
          (case encode q (map (\<lambda>r. get_or (content r) []) results) of
             None \<Rightarrow> map (\<lambda>r. get_or (score r) 0) results
           | Some similarities \<Rightarrow> similarities))"

text \<open>
  \<open>_calculate_position_scores\<close>. \<open>math.log\<close> raises \<open>ValueError\<close> outside the positive
  numbers, and both divisions raise \<open>ZeroDivisionError\<close> on a zero denominator.
\<close>

definition position_score_of :: "result \<Rightarrow> error + real" where
  "position_score_of r =
     (let p = get_or (page_num r) 1;
          i = get_or (chunk_index r) 0
      in if p \<le> 0 then Inl ValueError
         else if 1 + ln (real_of_int p) = 0 then Inl ZeroDivisionError
         else if 1 + real_of_int i * (1 / 10) = 0 then Inl ZeroDivisionError
         else Inr ((1 / (1 + ln (real_of_int p)) + 1 / (1 + real_of_int i * (1 / 10))) / 2))"

fun calculate_position_scores :: "result list \<Rightarrow> error + real list" where
  "calculate_position_scores [] = Inr []"
| "calculate_position_scores (r # rs) =
     (case position_score_of r of
        Inl e \<Rightarrow> Inl e
      | Inr p \<Rightarrow>
          (case calculate_position_scores rs of
             Inl e \<Rightarrow> Inl e
           | Inr ps \<Rightarrow> Inr (p # ps)))"

text \<open>
  The loop \<open>for i, result in enumerate(results)\<close> of \<open>rerank\<close>: the weighted sum with
  \<open>self.weights\<close> and the five fields written into the dictionary. Indexing a score list
  beyond its end raises \<open>IndexError\<close>.
\<close>

definition attach_scores :: "real \<Rightarrow> real \<Rightarrow> real \<Rightarrow> real \<Rightarrow> result \<Rightarrow> result" where
  "attach_scores s k c p r =
     r\<lparr>rerank_score := Some (s * (4 / 10) + k * (3 / 10) + c * (2 / 10) + p * (1 / 10)),
       semantic_score := Some s,
       keyword_score := Some k,
       content_type_score := Some c,
       position_score := Some p\<rparr>"

fun attach_all ::
  "result list \<Rightarrow> real list \<Rightarrow> real list \<Rightarrow> real list \<Rightarrow> real list \<Rightarrow> error + result list"
where
  "attach_all [] ss ks cs ps = Inr []"
| "attach_all (r # rs) (s # ss) (k # ks) (c # cs) (p # ps) =
     (case attach_all rs ss ks cs ps of
        Inl e \<Rightarrow> Inl e
      | Inr rs' \<Rightarrow> Inr (attach_scores s k c p r # rs'))"
| "attach_all (r # rs) ss ks cs ps = Inl IndexError"

text \<open>
  \<open>rerank\<close>. \<open>results.sort(key=lambda x: x['rerank_score'], reverse=True)\<close> is a stable
  sort in descending order of the key, that is a stable ascending sort of the negated key.
\<close>

definition rerank ::
  "unicode_db \<Rightarrow> rerank_model option \<Rightarrow> str \<Rightarrow> result list \<Rightarrow> error + result list" where
  "rerank u m q results =
     (if results = [] then Inr results
      else
        (let semantic_scores = calculate_semantic_scores m q results;
             keyword_scores = calculate_keyword_scores u q results;
             content_type_scores = calculate_content_type_scores results
         in case calculate_position_scores results of
              Inl e \<Rightarrow> Inl e
            | Inr position_scores \<Rightarrow>
                (case attach_all results semantic_scores keyword_scores content_type_scores
                        position_scores of
                   Inl e \<Rightarrow> Inl e
                 | Inr scored \<Rightarrow>
                     Inr (sort_key (\<lambda>x. - get_or (rerank_score x) 0) scored))))"

text \<open>
  The hypotheses of the ordering theorem. The position formula is defined on a candidate
  (page number positive, chunk index not \<open>-10\<close>); the chunkers of the repository number
  pages from 1 and chunks from 0. The embedding model scores a content independently of
  the rest of the batch, or always fails for the query.
\<close>

definition position_defined :: "result \<Rightarrow> bool" where
  "position_defined r \<longleftrightarrow> 0 < get_or (page_num r) 1 \<and> get_or (chunk_index r) 0 \<noteq> - 10"

definition pointwise_model :: "rerank_model option \<Rightarrow> str \<Rightarrow> bool" where
  "pointwise_model m q \<longleftrightarrow>
     (case m of
        None \<Rightarrow> True
      | Some encode \<Rightarrow>
          (\<forall>cs. encode q cs = None) \<or> (\<exists>f. \<forall>cs. encode q cs = Some (map f cs)))"

text \<open>A candidate without the five fields that \<open>rerank\<close> writes.\<close>

definition strip_scores :: "result \<Rightarrow> result" where
  "strip_scores r =
     r\<lparr>rerank_score := None, semantic_score := None, keyword_score := None,
       content_type_score := None, position_score := None\<rparr>"

text \<open>
  Example tables for ASCII text (lower-casing of \<open>A\<close> to \<open>Z\<close>; letters, digits and the
  underscore as word characters), and three example candidates.
\<close>

definition ascii_db :: unicode_db where
  "ascii_db =
     \<lparr>str_lower = map (\<lambda>c. if 65 \<le> c \<and> c \<le> 90 then c + 32 else c),
      is_word = (\<lambda>c. (48 \<le> c \<and> c \<le> 57) \<or> (65 \<le> c \<and> c \<le> 90) \<or> c = 95
                      \<or> (97 \<le> c \<and> c \<le> 122))\<rparr>"

definition chunk_A :: result where
  "chunk_A = chunk (ascii ''A'') (5 / 10) (ascii ''text'')"

definition chunk_B :: result where
  "chunk_B = chunk (ascii ''B'') (9 / 10) (ascii ''text'')"

definition chunk_C :: result where
  "chunk_C = chunk (ascii ''C'') (5 / 10) (ascii ''text'')"

section \<open>Hybrid retriever: merging raw hits\<close>

text \<open>
  The first loop of \<open>_merge_results\<close>: the priority score (default 0.5, multiplied by 0.3
  for the category \<open>references\<close>), the combined score, and the field written into the hit.
\<close>

definition combined_score_of :: "result \<Rightarrow> real" where
  "combined_score_of r =
     (let retrieval_score = get_or (score r) 0;
          priority = get_or (priority_score r) (5 / 10);
          content_cat = get_or (content_category r) (ascii ''other'');
          priority' = (if content_cat = ascii ''references'' then priority * (3 / 10)
                       else priority)
      in retrieval_score * (7 / 10 + 3 / 10 * priority'))"

definition score_results :: "result list \<Rightarrow> result list" where
  "score_results results = map (\<lambda>r. r\<lparr>combined_score := Some (combined_score_of r)\<rparr>) results"

text \<open>
  \<open>results.sort(key=lambda x: x.get('combined_score', 0), reverse=True)\<close>: stable and
  descending.
\<close>

definition sort_results :: "result list \<Rightarrow> result list" where
  "sort_results results = sort_key (\<lambda>x. - get_or (combined_score x) 0) results"

text \<open>
  The second loop, with the set \<open>seen_content\<close> of hashes. Python's built-in \<open>hash\<close> on
  strings is a parameter.
\<close>

fun dedup_by_hash :: "(str \<Rightarrow> int) \<Rightarrow> int set \<Rightarrow> result list \<Rightarrow> result list" where
  "dedup_by_hash h seen_content [] = []"
| "dedup_by_hash h seen_content (r # rs) =
     (let content_hash = h (get_or (content r) [])
      in if content_hash \<notin> seen_content
         then r # dedup_by_hash h (insert content_hash seen_content) rs
         else dedup_by_hash h seen_content rs)"

definition merge_results :: "(str \<Rightarrow> int) \<Rightarrow> result list \<Rightarrow> result list" where
  "merge_results h results = dedup_by_hash h {} (sort_results (score_results results))"

text \<open>The deduplication key of a hit, and an example hash without collision on short strings.\<close>

definition hash_key :: "(str \<Rightarrow> int) \<Rightarrow> result \<Rightarrow> int" where
  "hash_key h r = h (get_or (content r) [])"

definition example_hash :: "str \<Rightarrow> int" where
  "example_hash s = int (sum_list s) + 1000 * int (length s)"

definition chunk_A2 :: result where
  "chunk_A2 = chunk (ascii ''A'') (7 / 10) (ascii ''text'')"

section \<open>Multi-step executor\<close>

text \<open>
  The retriever is a collaborator: \<open>retrieve(query)\<close> returns a list of hits or raises an
  exception (\<open>Inl\<close>), for instance an error of the search backend or one raised by the
  reranker. The executor keeps two mutable attributes, the execution context (a dictionary
  from sub-query index to an entry) and the list of accumulated results.
\<close>

type_synonym retriever = "str \<Rightarrow> error + result list"

record context_entry =
  entry_query :: str
  entry_results :: "result list"
  entry_step :: nat

record executor_state =
  execution_context :: "int \<rightharpoonup> context_entry"
  accumulated_results :: "result list"

record executor_config =
  max_context_length :: int
  enable_result_fusion :: bool

definition default_executor_config :: executor_config where
  "default_executor_config = \<lparr>max_context_length = 1000, enable_result_fusion = True\<rparr>"

text \<open>\<open>xs[i]\<close> for an integer \<open>i\<close>: indices below zero count from the end.\<close>

definition py_index :: "'a list \<Rightarrow> int \<Rightarrow> error + 'a" where
  "py_index xs i =
     (if 0 \<le> i \<and> i < int (length xs) then Inr (xs ! nat i)
      else if i < 0 \<and> - int (length xs) \<le> i then Inr (xs ! nat (int (length xs) + i))
      else Inl IndexError)"

text \<open>
  \<open>_build_query_context\<close>. The two literals are the label put before each piece of
  context (U+76F8 U+5173 U+4FE1 U+606F, a colon and a space) and the sentence that joins
  the context to the query (two line feeds, U+57FA U+4E8E U+4EE5 U+4E0A U+4FE1 U+606F
  U+FF0C).
\<close>

definition context_parts_of :: "context_entry \<Rightarrow> str list" where
  "context_parts_of dep_context =
     concat (map (\<lambda>r. case content r of
                         None \<Rightarrow> []
                       | Some c \<Rightarrow> [[30456, 20851, 20449, 24687, 58, 32] @ take 200 c])
                 (take 2 (entry_results dep_context)))"

definition build_query_context ::
  "executor_config \<Rightarrow> executor_state \<Rightarrow> SubQuery \<Rightarrow> int \<Rightarrow> str" where
  "build_query_context cfg st sub_query query_idx =
     (let q = query sub_query
      in if \<not> context_needed sub_query \<or> get_or (depends_on sub_query) [] = [] then q
         else
           (let context_parts =
                  concat (map (\<lambda>dep_idx. case execution_context st dep_idx of
                                             None \<Rightarrow> []
                                           | Some dep_context \<Rightarrow> context_parts_of dep_context)
                            (get_or (depends_on sub_query) []))
            in if context_parts \<noteq> []
               then
                 (let ctx = py_join [32] context_parts;
                      ctx' = (if int (length ctx) > max_context_length cfg
                              then py_take (max_context_length cfg) ctx @ ascii ''...''
                              else ctx)
                  in ctx' @ [10, 10, 22522, 20110, 20197, 19978, 20449, 24687, 65292] @ q)
               else q))"

text \<open>
  \<open>_fuse_results\<close>: the first hit of each content fingerprint (the first 100 characters)
  is kept, then the hits are sorted by descending score, stably.
\<close>

fun dedup_by_fingerprint :: "str set \<Rightarrow> result list \<Rightarrow> result list" where
  "dedup_by_fingerprint seen_contents [] = []"
| "dedup_by_fingerprint seen_contents (r # rs) =
     (let content_fingerprint = take 100 (get_or (content r) [])
      in if content_fingerprint \<notin> seen_contents
         then r # dedup_by_fingerprint (insert content_fingerprint seen_contents) rs
         else dedup_by_fingerprint seen_contents rs)"

definition fuse_results :: "executor_config \<Rightarrow> result list \<Rightarrow> result list" where
  "fuse_results cfg results =
     (if \<not> enable_result_fusion cfg then results
      else sort_key (\<lambda>x. - get_or (score x) 0) (dedup_by_fingerprint {} results))"

text \<open>
  The loop of \<open>execute_decomposed_query\<close> over \<open>enumerate(execution_plan)\<close>, from step
  number \<open>step\<close> on. An index that is too large is skipped. Indexing the sub-queries is
  outside the \<open>try\<close>, so its \<open>IndexError\<close> propagates; an exception of the retriever is
  caught and the loop continues.
\<close>

fun execute_steps ::
  "retriever \<Rightarrow> executor_config \<Rightarrow> SubQuery list \<Rightarrow> nat \<Rightarrow> int list \<Rightarrow> executor_state
     \<Rightarrow> error + executor_state"
where
  "execute_steps retrieve cfg sqs step [] st = Inr st"
| "execute_steps retrieve cfg sqs step (query_idx # plan') st =
     (if query_idx \<ge> int (length sqs) then execute_steps retrieve cfg sqs (Suc step) plan' st
      else
        (case py_index sqs query_idx of
           Inl e \<Rightarrow> Inl e
         | Inr sub_query \<Rightarrow>
             (case retrieve (build_query_context cfg st sub_query query_idx) of
                Inl e \<Rightarrow> execute_steps retrieve cfg sqs (Suc step) plan' st
              | Inr results \<Rightarrow>
                  execute_steps retrieve cfg sqs (Suc step) plan'
                    (st\<lparr>execution_context :=
                          (execution_context st)
                            (query_idx \<mapsto>
                               \<lparr>entry_query = query sub_query, entry_results = results,
                                entry_step = step\<rparr>),
                        accumulated_results := accumulated_results st @ results\<rparr>))))"

text \<open>
  \<open>execute_decomposed_query\<close> returns the fused results; the final state is returned as
  well, since the caller reads \<open>execution_context\<close> afterwards.
\<close>

definition execute_decomposed_query ::
  "retriever \<Rightarrow> executor_config \<Rightarrow> DecompositionResult
     \<Rightarrow> error + (result list \<times> executor_state)"
where
  "execute_decomposed_query retrieve cfg decomposition =
     (case execute_steps retrieve cfg (sub_queries decomposition) 0
             (execution_plan decomposition)
             \<lparr>execution_context = Map.empty, accumulated_results = []\<rparr> of
        Inl e \<Rightarrow> Inl e
      | Inr st \<Rightarrow> Inr (fuse_results cfg (accumulated_results st), st))"

text \<open>
  An example: two independent sub-queries with the texts \<open>a\<close> and \<open>b\<close>, and a retriever
  whose backend fails on the query \<open>a\<close> and finds one hit for every other query.
\<close>

definition two_step_decomposition :: DecompositionResult where
  "two_step_decomposition =
     \<lparr>original_query = ascii ''a b'',
      dr_intent = \<lparr>intent_type = ascii ''complex'', complexity_score = 7, key_concepts = [],
                   question_type = ascii ''factual'', requires_decomposition = True,
                   reasoning = []\<rparr>,
      sub_queries = [SubQuery3 (ascii ''a'') [] 1, SubQuery3 (ascii ''b'') [] 1],
      execution_plan = [0, 1]\<rparr>"

definition failing_on_a :: retriever where
  "failing_on_a q = (if q = ascii ''a'' then Inl BackendError else Inr [chunk_A])"

section \<open>Result synthesizer\<close>

text \<open>
  The language model is a collaborator: for a prompt, the last message of its response is
  an assistant message with some content (\<open>Reply\<close>), or there is no such message
  (\<open>NoReply\<close>), or the call raises (\<open>Raises\<close>).
\<close>

datatype llm_reply = Reply str | NoReply | Raises

type_synonym llm = "str \<Rightarrow> llm_reply"

record synthesizer_config =
  max_synthesis_length :: int
  synthesis_style :: str

definition default_synthesizer_config :: synthesizer_config where
  "default_synthesizer_config =
     \<lparr>max_synthesis_length = 2000, synthesis_style = ascii ''comprehensive''\<rparr>"

text \<open>
  The dictionary \<open>sub_results\<close> from sub-query index to hits, as an association list in
  insertion order.
\<close>

type_synonym sub_results = "(int \<times> result list) list"

text \<open>
  The two fixed answers: "Sorry, no relevant information was found." and "Sorry, no
  relevant information was found to answer your question.", in Chinese.
\<close>

definition no_information :: str where
  "no_information =
     [25265, 27465, 65292, 27809, 26377, 25214, 21040, 30456, 20851, 20449, 24687, 12290]"

definition no_information_for_question :: str where
  "no_information_for_question =
     [25265, 27465, 65292, 27809, 26377, 25214, 21040, 30456, 20851, 20449, 24687, 26469,
      22238, 31572, 24744, 30340, 38382, 39064, 12290]"

text \<open>\<open>s.split('\n')\<close>, with the line feed as the separator \<open>sep\<close>.\<close>

fun split_on :: "nat \<Rightarrow> str \<Rightarrow> str \<Rightarrow> str list" where
  "split_on sep cur [] = [cur]"
| "split_on sep cur (c # cs) =
     (if c = sep then cur # split_on sep [] cs else split_on sep (cur @ [c]) cs)"

text \<open>\<open>_post_process_answer\<close>: its loop over the lines, then the joining and the length limit.\<close>

fun clean_lines :: "bool \<Rightarrow> str list \<Rightarrow> str list" where
  "clean_lines prev_empty [] = []"
| "clean_lines prev_empty (line # lines) =
     (if py_strip line \<noteq> [] then py_strip line # clean_lines False lines
      else if \<not> prev_empty then [] # clean_lines True lines
      else clean_lines prev_empty lines)"

definition post_process_answer :: "synthesizer_config \<Rightarrow> str \<Rightarrow> str" where
  "post_process_answer cfg answer =
     (let result = py_join [10] (clean_lines False (split_on 10 [] answer))
      in if int (length result) > max_synthesis_length cfg
         then py_take (max_synthesis_length cfg) result @ ascii ''...''
         else result)"

text \<open>
  \<open>_build_synthesis_prompt\<close>: first the loop over \<open>enumerate(execution_plan)\<close>, from
  position \<open>i\<close> on, then the whole prompt. The literals are the Chinese labels of the
  source as code points.
\<close>

definition numbered_snippets :: "result list \<Rightarrow> str list" where
  "numbered_snippets results =
     concat (map (\<lambda>(j, r).
                    if take 300 (get_or (content r) []) \<noteq> []
                    then [ascii ''  '' @ str_of_nat (Suc j) @ ascii ''. ''
                            @ take 300 (get_or (content r) [])]
                    else [])
                 (enumerate 0 (take 3 results)))"

fun prompt_steps :: "SubQuery list \<Rightarrow> sub_results \<Rightarrow> nat \<Rightarrow> int list \<Rightarrow> error + str list" where
  "prompt_steps sqs sr i [] = Inr []"
| "prompt_steps sqs sr i (query_idx # plan') =
     (case map_of sr query_idx of
        None \<Rightarrow> prompt_steps sqs sr (Suc i) plan'
      | Some results \<Rightarrow>
          if query_idx < int (length sqs)
          then
            (case py_index sqs query_idx of
               Inl e \<Rightarrow> Inl e
             | Inr sub_query \<Rightarrow>
                 (case prompt_steps sqs sr (Suc i) plan' of
                    Inl e \<Rightarrow> Inl e
                  | Inr rest \<Rightarrow>
                      Inr ([[],
                            [23376, 26597, 35810, 32] @ str_of_nat (Suc i) @ [65306]
                              @ query sub_query,
                            [30446, 30340, 65306] @ intent sub_query]
                           @ (if results \<noteq> []
                              then [30456, 20851, 20449, 24687, 65306] # numbered_snippets results
                              else [[30456, 20851, 20449, 24687, 65306, 26410, 25214, 21040,
                                     30456, 20851, 20869, 23481]])
                           @ rest)))
          else prompt_steps sqs sr (Suc i) plan')"

definition style_instructions :: "str \<rightharpoonup> str" where
  "style_instructions =
     [ascii ''comprehensive'' \<mapsto>
        [35831, 25552, 20379, 35814, 32454, 12289, 20840, 38754, 30340, 31572, 26696, 65292,
         28085, 30422, 25152, 26377, 30456, 20851, 26041, 38754, 12290],
      ascii ''concise'' \<mapsto>
        [35831, 25552, 20379, 31616, 27905, 12289, 35201, 28857, 26126, 30830, 30340, 31572,
         26696, 12290],
      ascii ''structured'' \<mapsto>
        [35831, 25552, 20379, 32467, 26500, 21270, 30340, 31572, 26696, 65292, 20351, 29992,
         28165, 26224, 30340, 27573, 33853, 21644, 35201, 28857, 12290]]"

definition build_synthesis_prompt ::
  "synthesizer_config \<Rightarrow> str \<Rightarrow> DecompositionResult \<Rightarrow> sub_results \<Rightarrow> error + str" where
  "build_synthesis_prompt cfg oq d sr =
     (case prompt_steps (sub_queries d) sr 0 (execution_plan d) of
        Inl e \<Rightarrow> Inl e
      | Inr steps \<Rightarrow>
          Inr (py_join [10]
            ([[35831, 22522, 20110, 20197, 19979, 22810, 20010, 23376, 26597, 35810, 30340,
               32467, 26524, 65292, 20026, 21407, 22987, 38382, 39064, 25552, 20379, 19968,
               20010, 23436, 25972, 12289, 36830, 36143, 30340, 31572, 26696, 12290],
              [],
              [21407, 22987, 38382, 39064, 65306] @ oq,
              [],
              [26597, 35810, 20998, 35299, 21644, 32467, 26524, 65306]]
             @ steps
             @ [[],
                [27719, 24635, 35201, 27714, 65306],
                ascii ''1. ''
                  @ get_or (style_instructions (synthesis_style cfg))
                      [35831, 25552, 20379, 35814, 32454, 12289, 20840, 38754, 30340, 31572,
                       26696, 65292, 28085, 30422, 25152, 26377, 30456, 20851, 26041, 38754,
                       12290],
                [50, 46, 32, 30830, 20445, 31572, 26696, 36923, 36753, 36830, 36143, 65292,
                 21508, 37096, 20998, 20043, 38388, 26377, 28165, 26224, 30340, 20851, 32852],
                [51, 46, 32, 36991, 20813, 37325, 22797, 20449, 24687, 65292, 25972, 21512,
                 30456, 20284, 20869, 23481],
                [52, 46, 32, 22914, 26524, 26576, 20123, 23376, 26597, 35810, 27809, 26377,
                 25214, 21040, 30456, 20851, 20449, 24687, 65292, 35831, 22312, 31572, 26696,
                 20013, 35828, 26126],
                [53, 46, 32, 20445, 25345, 23458, 35266, 12289, 20934, 30830, 65292, 22522,
                 20110, 25552, 20379, 30340, 20449, 24687, 22238, 31572],
                [],
                [35831, 29983, 25104, 23436, 25972, 30340, 31572, 26696, 65306]])))"

text \<open>
  \<open>_extract_key_content\<close>: the first 200 characters, stripped, of the first two hits,
  joined by a full-width semicolon; a fixed text (U+672A U+627E U+5230 U+76F8 U+5173
  U+4FE1 U+606F, "nothing relevant found") when nothing is left.
\<close>

definition extract_key_content :: "result list \<Rightarrow> str" where
  "extract_key_content results =
     (if results = [] then [26410, 25214, 21040, 30456, 20851, 20449, 24687]
      else
        (let contents =
               concat (map (\<lambda>r. if get_or (content r) [] \<noteq> []
                                   \<and> py_strip (take 200 (get_or (content r) [])) \<noteq> []
                                 then [py_strip (take 200 (get_or (content r) []))]
                                 else [])
                         (take 2 results))
         in if contents \<noteq> [] then py_join [65307] contents
            else [26410, 25214, 21040, 30456, 20851, 20449, 24687]))"

text \<open>
  The three rule-based combiners. The comparative one indexes the sub-query list without
  a bound check and goes over the plan without its last entry, then adds the comparison.
\<close>

fun comparative_parts :: "SubQuery list \<Rightarrow> sub_results \<Rightarrow> int list \<Rightarrow> error + str list" where
  "comparative_parts sqs sr [] = Inr []"
| "comparative_parts sqs sr (query_idx # plan') =
     (case map_of sr query_idx of
        None \<Rightarrow> comparative_parts sqs sr plan'
      | Some results \<Rightarrow>
          (case py_index sqs query_idx of
             Inl e \<Rightarrow> Inl e
           | Inr sub_query \<Rightarrow>
               (case comparative_parts sqs sr plan' of
                  Inl e \<Rightarrow> Inl e
                | Inr rest \<Rightarrow>
                    Inr ((if results \<noteq> []
                          then [[20851, 20110] @ intent sub_query @ [65306]
                                  @ extract_key_content results]
                          else [])
                         @ rest))))"

definition synthesize_comparative_results ::
  "DecompositionResult \<Rightarrow> sub_results \<Rightarrow> error + str list" where
  "synthesize_comparative_results d sr =
     (case comparative_parts (sub_queries d) sr (butlast (execution_plan d)) of
        Inl e \<Rightarrow> Inl e
      | Inr parts \<Rightarrow>
          Inr (parts @
               (if execution_plan d \<noteq> []
                then (case map_of sr (last (execution_plan d)) of
                        None \<Rightarrow> []
                      | Some comparison_results \<Rightarrow>
                          if comparison_results \<noteq> []
                          then [[27604, 36739, 20998, 26512, 65306]
                                  @ extract_key_content comparison_results]
                          else [])
                else [])))"

fun synthesize_multi_aspect_parts ::
  "SubQuery list \<Rightarrow> sub_results \<Rightarrow> int list \<Rightarrow> error + str list" where
  "synthesize_multi_aspect_parts sqs sr [] = Inr []"
| "synthesize_multi_aspect_parts sqs sr (query_idx # plan') =
     (case map_of sr query_idx of
        None \<Rightarrow> synthesize_multi_aspect_parts sqs sr plan'
      | Some results \<Rightarrow>
          if query_idx < int (length sqs)
          then
            (case py_index sqs query_idx of
               Inl e \<Rightarrow> Inl e
             | Inr sub_query \<Rightarrow>
                 (case synthesize_multi_aspect_parts sqs sr plan' of
                    Inl e \<Rightarrow> Inl e
                  | Inr rest \<Rightarrow>
                      Inr ((if results \<noteq> []
                            then [intent sub_query @ [65306] @ extract_key_content results]
                            else [])
                           @ rest)))
          else synthesize_multi_aspect_parts sqs sr plan')"

fun synthesize_general_parts :: "sub_results \<Rightarrow> int list \<Rightarrow> str list" where
  "synthesize_general_parts sr [] = []"
| "synthesize_general_parts sr (query_idx # plan') =
     (case map_of sr query_idx of
        None \<Rightarrow> synthesize_general_parts sr plan'
      | Some results \<Rightarrow>
          (if results \<noteq> [] then [extract_key_content results] else [])
          @ synthesize_general_parts sr plan')"

definition rule_based_synthesize :: "DecompositionResult \<Rightarrow> sub_results \<Rightarrow> error + str" where
  "rule_based_synthesize d sr =
     (case (if intent_type (dr_intent d) = ascii ''comparative''
            then synthesize_comparative_results d sr
            else if intent_type (dr_intent d) = ascii ''multi_aspect''
            then synthesize_multi_aspect_parts (sub_queries d) sr (execution_plan d)
            else Inr (synthesize_general_parts sr (execution_plan d))) of
        Inl e \<Rightarrow> Inl e
      | Inr answer_parts \<Rightarrow>
          Inr (if answer_parts \<noteq> [] then py_join [10, 10] answer_parts
               else no_information_for_question))"

text \<open>
  \<open>_llm_synthesize\<close>: everything up to the reply is inside \<open>try\<close>; on any failure the
  rule-based combination is used.
\<close>

definition llm_synthesize ::
  "llm \<Rightarrow> synthesizer_config \<Rightarrow> str \<Rightarrow> DecompositionResult \<Rightarrow> sub_results \<Rightarrow> error + str" where
  "llm_synthesize l cfg oq d sr =
     (case build_synthesis_prompt cfg oq d sr of
        Inl e \<Rightarrow> rule_based_synthesize d sr
      | Inr prompt \<Rightarrow>
          (case l prompt of
             Reply c \<Rightarrow> Inr (post_process_answer cfg (py_strip c))
           | NoReply \<Rightarrow> rule_based_synthesize d sr
           | Raises \<Rightarrow> rule_based_synthesize d sr))"

text \<open>
  \<open>_generate_simple_answer\<close>. For a non-empty list of hits the answer is produced by
  \<open>_llm_generate_simple_answer\<close> or \<open>_rule_generate_simple_answer\<close>; these are not
  modelled and are represented by the argument \<open>answer_from_hits\<close>, which no statement
  below restricts.
\<close>

definition generate_simple_answer ::
  "(str \<Rightarrow> result list \<Rightarrow> error + str) \<Rightarrow> str \<Rightarrow> result list \<Rightarrow> error + str" where
  "generate_simple_answer answer_from_hits q results =
     (if results = [] then Inr no_information else answer_from_hits q results)"

definition synthesize_results ::
  "llm option \<Rightarrow> synthesizer_config \<Rightarrow> (str \<Rightarrow> result list \<Rightarrow> error + str) \<Rightarrow> str
     \<Rightarrow> DecompositionResult \<Rightarrow> sub_results \<Rightarrow> error + str"
where
  "synthesize_results llm_opt cfg answer_from_hits oq d sr =
     (if sr = [] then Inr no_information
      else if length sr = 1 then generate_simple_answer answer_from_hits oq (snd (hd sr))
      else
        (case llm_opt of
           Some l \<Rightarrow> llm_synthesize l cfg oq d sr
         | None \<Rightarrow> rule_based_synthesize d sr))"

text \<open>A language model that replies with the empty text, for the examples.\<close>

definition silent_llm :: llm where
  "silent_llm prompt = Reply []"

text \<open>
  A stand-in for the answer generation on a non-empty list of hits, for the examples: the
  content of the first hit.
\<close>

definition first_hit_answer :: "str \<Rightarrow> result list \<Rightarrow> error + str" where
  "first_hit_answer q results = Inr (get_or (content (hd results)) [])"

section \<open>Facts about the string operations\<close>

lemma ascii_eq_iff: "ascii a = ascii b \<longleftrightarrow> a = b"
proof -
  have "inj (of_char :: char \<Rightarrow> nat)"
    by (rule inj_on_inverseI[where g = char_of]) simp
  then show ?thesis
    by (simp add: ascii_def inj_map_eq_map)
qed

section \<open>Properties of the execution planner\<close>

lemma dfs_ok_refl: "dfs_ok s (Inr s)"
  by (simp add: dfs_ok_def)

lemma dfs_ok_trans:
  assumes "dfs_ok s (Inr s1)" and "dfs_ok s1 r"
  shows "dfs_ok s r"
  using assms by (cases r) (auto simp: dfs_ok_def)

lemma dfs_ok_Inr:
  assumes "dfs_ok s r"
  obtains s' where "r = Inr s'"
  using assms by (cases r) (auto simp: dfs_ok_def)

lemma card_unvisited_insert:
  fixes n :: int
  assumes "0 \<le> node" "node < n" "node \<notin> T" "card ({0..<n} - T) < Suc k"
  shows "card ({0..<n} - insert node T) < k"
proof -
  have "node \<in> {0..<n} - T" using assms by simp
  then have "card ({0..<n} - insert node T) = card ({0..<n} - T) - 1"
    and "0 < card ({0..<n} - T)"
    using assms by (auto simp: card_gt_0_iff)
  then show ?thesis using assms(4) by linarith
qed

text \<open>
  The recursion depth that is left always exceeds the number of valid indices not on the
  stack; under that invariant every call returns normally and restores the stack.
\<close>

lemma dfs_sound:
  "card ({0..<int (length sqs)} - temp_visited s) < k \<Longrightarrow>
     dfs_ok s (dfs k sqs node s) \<and>
     (\<forall>s'. dfs k sqs node s = Inr s' \<longrightarrow> node \<in> visited s' \<or> node \<in> temp_visited s)"
  "card ({0..<int (length sqs)} - temp_visited s) < k \<Longrightarrow>
     dfs_ok s (dfs_deps k sqs deps s)"
proof (induction k sqs node s and k sqs deps s rule: dfs_dfs_deps.induct)
  case (1 sqs node s)
  then show ?case by simp
next
  case (2 k sqs node s)
  show ?case
  proof (cases "node \<in> temp_visited s \<or> node \<in> visited s")
    case True
    then show ?thesis by (auto simp: dfs_ok_refl)
  next
    case False
    define s1 where "s1 = s\<lparr>temp_visited := insert node (temp_visited s)\<rparr>"
    define deps where "deps = (case dependency_graph sqs node of None \<Rightarrow> [] | Some ds \<Rightarrow> ds)"
    have ok1: "dfs_ok s1 (dfs_deps k sqs deps s1)"
    proof (cases "0 \<le> node \<and> node < int (length sqs)")
      case True
      with False "2.prems"
      have "card ({0..<int (length sqs)} - insert node (temp_visited s)) < k"
        by (intro card_unvisited_insert) auto
      then have "card ({0..<int (length sqs)} - temp_visited s1) < k"
        by (simp add: s1_def)
      with "2.IH" False show ?thesis by (simp add: s1_def deps_def)
    next
      case False
      then have "deps = []" by (auto simp: deps_def dependency_graph_def)
      then show ?thesis by (simp add: dfs_ok_refl)
    qed
    then obtain s2 where s2: "dfs_deps k sqs deps s1 = Inr s2"
      by (rule dfs_ok_Inr)
    from ok1 s2 have t2: "temp_visited s2 = insert node (temp_visited s)"
      and v2: "visited s \<subseteq> visited s2"
      and d2: "visited s2 \<inter> insert node (temp_visited s) \<subseteq> visited s"
      and p2: "distinct (plan s) \<and> set (plan s) = visited s
                 \<longrightarrow> distinct (plan s2) \<and> set (plan s2) = visited s2"
      by (auto simp: dfs_ok_def s1_def)
    from d2 False have nv: "node \<notin> visited s2" by auto
    have res: "dfs (Suc k) sqs node s =
        Inr (s2\<lparr>temp_visited := temp_visited s2 - {node},
                visited := insert node (visited s2),
                plan := plan s2 @ [node]\<rparr>)"
      using False s2 t2 by (simp add: s1_def deps_def)
    show ?thesis
      unfolding res using False t2 v2 d2 p2 nv by (auto simp: dfs_ok_def)
  qed
next
  case (3 k sqs s)
  then show ?case by (simp add: dfs_ok_refl)
next
  case (4 k sqs dep deps s)
  show ?case
  proof (cases "dep < int (length sqs)")
    case True
    from "4.IH"(1)[OF True "4.prems"] have ok1: "dfs_ok s (dfs k sqs dep s)" by simp
    then obtain s1 where s1: "dfs k sqs dep s = Inr s1"
      by (rule dfs_ok_Inr)
    from ok1 s1 have "temp_visited s1 = temp_visited s" by (simp add: dfs_ok_def)
    with "4.prems" have "card ({0..<int (length sqs)} - temp_visited s1) < k" by simp
    from "4.IH"(2)[OF True s1 this] have "dfs_ok s1 (dfs_deps k sqs deps s1)" .
    with ok1 s1 have "dfs_ok s (dfs_deps k sqs deps s1)"
      by (auto intro: dfs_ok_trans)
    then show ?thesis using True s1 by simp
  next
    case False
    with "4.IH"(3) "4.prems" show ?thesis by simp
  qed
qed

lemma visit_all_sound:
  "card ({0..<int (length sqs)} - temp_visited s) < k \<Longrightarrow>
     dfs_ok s (visit_all k sqs nodes s) \<and>
     (\<forall>s'. visit_all k sqs nodes s = Inr s' \<longrightarrow>
        set nodes \<subseteq> visited s' \<union> temp_visited s)"
proof (induction nodes arbitrary: s)
  case Nil
  then show ?case by (simp add: dfs_ok_refl)
next
  case (Cons node nodes)
  show ?case
  proof (cases "node \<in> visited s")
    case True
    from Cons.IH[OF Cons.prems]
    have ih: "dfs_ok s (visit_all k sqs nodes s)"
      "\<forall>s'. visit_all k sqs nodes s = Inr s' \<longrightarrow> set nodes \<subseteq> visited s' \<union> temp_visited s"
      by simp_all
    from ih(1) obtain s' where s': "visit_all k sqs nodes s = Inr s'"
      by (rule dfs_ok_Inr)
    from ih(1) s' have "visited s \<subseteq> visited s'" by (simp add: dfs_ok_def)
    with True ih s' show ?thesis by auto
  next
    case False
    from dfs_sound(1)[OF Cons.prems, of node]
    have ok1: "dfs_ok s (dfs k sqs node s)"
      and in1: "\<forall>s'. dfs k sqs node s = Inr s' \<longrightarrow> node \<in> visited s' \<or> node \<in> temp_visited s"
      by simp_all
    from ok1 obtain s1 where s1: "dfs k sqs node s = Inr s1"
      by (rule dfs_ok_Inr)
    from ok1 s1 have t1: "temp_visited s1 = temp_visited s" by (simp add: dfs_ok_def)
    with Cons.prems have "card ({0..<int (length sqs)} - temp_visited s1) < k" by simp
    from Cons.IH[OF this]
    have ih: "dfs_ok s1 (visit_all k sqs nodes s1)"
      "\<forall>s'. visit_all k sqs nodes s1 = Inr s' \<longrightarrow> set nodes \<subseteq> visited s' \<union> temp_visited s1"
      by simp_all
    from ih(1) obtain s2 where s2: "visit_all k sqs nodes s1 = Inr s2"
      by (rule dfs_ok_Inr)
    from ih(1) s2 have v12: "visited s1 \<subseteq> visited s2" by (simp add: dfs_ok_def)
    have "dfs_ok s (visit_all k sqs nodes s1)"
      using ok1 s1 ih(1) by (auto intro: dfs_ok_trans)
    moreover have "set (node # nodes) \<subseteq> visited s2 \<union> temp_visited s"
      using in1 s1 ih(2) s2 v12 t1 by auto
    ultimately show ?thesis using False s1 s2 by simp
  qed
qed

lemma count_list_distinct: "distinct xs \<Longrightarrow> x \<in> set xs \<Longrightarrow> count_list xs x = 1"
  by (induction xs) (auto simp: count_list_0_iff)

lemma set_nodes_by_priority:
  "set (nodes_by_priority sqs) = int ` {0..<length sqs}"
  by (simp add: nodes_by_priority_def)

lemma generate_execution_plan_total:
  assumes "length sqs < depth"
  shows "\<exists>p. generate_execution_plan depth sqs = Inr p \<and> distinct p \<and>
             int ` {0..<length sqs} \<subseteq> set p"
proof (cases "sqs = []")
  case True
  then show ?thesis by (simp add: generate_execution_plan_def)
next
  case False
  define s0 where "s0 = \<lparr>plan = [], visited = {}, temp_visited = ({} :: int set)\<rparr>"
  have "card ({0..<int (length sqs)} - temp_visited s0) < depth"
    using assms by (simp add: s0_def)
  from visit_all_sound[OF this, of "nodes_by_priority sqs"]
  have ok: "dfs_ok s0 (visit_all depth sqs (nodes_by_priority sqs) s0)"
    and all: "\<forall>s'. visit_all depth sqs (nodes_by_priority sqs) s0 = Inr s' \<longrightarrow>
                set (nodes_by_priority sqs) \<subseteq> visited s' \<union> temp_visited s0"
    by simp_all
  from ok obtain s' where s': "visit_all depth sqs (nodes_by_priority sqs) s0 = Inr s'"
    by (rule dfs_ok_Inr)
  from ok s' have "distinct (plan s')" and "set (plan s') = visited s'"
    by (simp_all add: dfs_ok_def s0_def)
  moreover from all s' have "int ` {0..<length sqs} \<subseteq> visited s'"
    by (simp add: set_nodes_by_priority s0_def)
  ultimately show ?thesis
    using False s' by (simp add: generate_execution_plan_def s0_def)
qed

text \<open>
  The order of the plan. When every followed dependency is a non-negative index, the plan
  is a permutation of the indices of the sub-query list; if in addition the dependencies
  have no cycle, every followed dependency of a sub-query comes before it in the plan.
\<close>

lemma deps_first_Nil: "deps_first E []"
  by (simp add: deps_first_def)

lemma deps_first_snoc:
  assumes "deps_first E p" and "\<forall>w. (x, w) \<in> E \<longrightarrow> w \<in> set p"
  shows "deps_first E (p @ [x])"
  unfolding deps_first_def
proof (intro allI impI)
  fix pre v post w
  assume split: "p @ [x] = pre @ v # post" and edge: "(v, w) \<in> E"
  show "w \<in> set pre"
  proof (cases post rule: rev_cases)
    case Nil
    with split have "pre = p" "v = x" by simp_all
    with assms(2) edge show ?thesis by simp
  next
    case (snoc post' y)
    with split have "p = pre @ v # post'" by simp
    with assms(1) edge show ?thesis by (auto simp: deps_first_def)
  qed
qed

lemma dfs_order:
  "\<lbrakk>dfs k sqs node s = Inr s'; acyclic (dep_edges sqs);
    \<forall>t \<in> temp_visited s. (t, node) \<in> (dep_edges sqs)\<^sup>+;
    deps_first (dep_edges sqs) (plan s); set (plan s) = visited s\<rbrakk>
   \<Longrightarrow> dfs_post (dep_edges sqs) s s' \<and> node \<in> visited s'"
  "\<lbrakk>dfs_deps k sqs deps s = Inr s'; acyclic (dep_edges sqs);
    \<forall>d \<in> set deps. d < int (length sqs) \<longrightarrow> (\<forall>t \<in> temp_visited s. (t, d) \<in> (dep_edges sqs)\<^sup>+);
    deps_first (dep_edges sqs) (plan s); set (plan s) = visited s\<rbrakk>
   \<Longrightarrow> dfs_post (dep_edges sqs) s s'
       \<and> (\<forall>d \<in> set deps. d < int (length sqs) \<longrightarrow> d \<in> visited s')"
proof (induction k sqs node s and k sqs deps s arbitrary: s' and s'
    rule: dfs_dfs_deps.induct)
  case (1 sqs node s)
  then show ?case by simp
next
  case (2 k sqs node s)
  let ?E = "dep_edges sqs"
  have not_temp: "node \<notin> temp_visited s"
  proof
    assume "node \<in> temp_visited s"
    with "2.prems"(3) have "(node, node) \<in> ?E\<^sup>+" by blast
    with "2.prems"(2) show False by (simp add: acyclic_def)
  qed
  show ?case
  proof (cases "node \<in> visited s")
    case True
    with not_temp "2.prems" show ?thesis by (auto simp: dfs_post_def)
  next
    case False
    define s1 where "s1 = s\<lparr>temp_visited := insert node (temp_visited s)\<rparr>"
    define deps where "deps = (case dependency_graph sqs node of None \<Rightarrow> [] | Some ds \<Rightarrow> ds)"
    from "2.prems"(1) not_temp False obtain s2
      where s2: "dfs_deps k sqs deps s1 = Inr s2"
        and s': "s' = s2\<lparr>temp_visited := temp_visited s2 - {node},
                        visited := insert node (visited s2),
                        plan := plan s2 @ [node]\<rparr>"
      by (auto simp: s1_def deps_def split: sum.splits if_splits)
    have edge: "(node, d) \<in> ?E" if "d \<in> set deps" "d < int (length sqs)" for d
      using that by (simp add: dep_edges_def followed_deps_def deps_def)
    have pre: "\<forall>d \<in> set deps. d < int (length sqs)
                 \<longrightarrow> (\<forall>t \<in> temp_visited s1. (t, d) \<in> ?E\<^sup>+)"
    proof (intro ballI impI)
      fix d t assume d: "d \<in> set deps" "d < int (length sqs)" and t: "t \<in> temp_visited s1"
      from edge[OF d] have e: "(node, d) \<in> ?E\<^sup>+" by blast
      show "(t, d) \<in> ?E\<^sup>+"
      proof (cases "t = node")
        case True
        with e show ?thesis by simp
      next
        case False
        with t have "t \<in> temp_visited s" by (simp add: s1_def)
        with "2.prems"(3) have "(t, node) \<in> ?E\<^sup>+" by blast
        then show ?thesis using e by (rule trancl_trans)
      qed
    qed
    from "2.IH"[OF not_temp False, of s2] s2 "2.prems"(2) pre "2.prems"(4,5)
    have post2: "dfs_post ?E s1 s2"
      and all: "\<forall>d \<in> set deps. d < int (length sqs) \<longrightarrow> d \<in> visited s2"
      by (simp_all add: s1_def deps_def)
    have "\<forall>w. (node, w) \<in> ?E \<longrightarrow> w \<in> set (plan s2)"
    proof (intro allI impI)
      fix w assume "(node, w) \<in> ?E"
      then have "w \<in> set deps" "w < int (length sqs)"
        by (simp_all add: dep_edges_def followed_deps_def deps_def)
      with all post2 show "w \<in> set (plan s2)" by (simp add: dfs_post_def)
    qed
    with post2 have "deps_first ?E (plan s2 @ [node])"
      by (intro deps_first_snoc) (simp_all add: dfs_post_def)
    with post2 not_temp show ?thesis
      by (auto simp: dfs_post_def s' s1_def)
  qed
next
  case (3 k sqs s)
  then show ?case by (simp add: dfs_post_def)
next
  case (4 k sqs dep deps s)
  let ?E = "dep_edges sqs"
  show ?case
  proof (cases "dep < int (length sqs)")
    case True
    with "4.prems"(1) obtain s1 where s1: "dfs k sqs dep s = Inr s1"
      and rest: "dfs_deps k sqs deps s1 = Inr s'"
      by (auto split: sum.splits)
    from "4.prems"(3) True have "\<forall>t \<in> temp_visited s. (t, dep) \<in> ?E\<^sup>+" by simp
    from "4.IH"(1)[OF True s1 "4.prems"(2) this "4.prems"(4,5)]
    have post1: "dfs_post ?E s s1" and dep: "dep \<in> visited s1" by simp_all
    from post1 "4.prems"(3)
    have "\<forall>d \<in> set deps. d < int (length sqs)
            \<longrightarrow> (\<forall>t \<in> temp_visited s1. (t, d) \<in> ?E\<^sup>+)"
      by (simp add: dfs_post_def)
    from "4.IH"(2)[OF True s1 rest "4.prems"(2) this] post1
    have post2: "dfs_post ?E s1 s'"
      and all: "\<forall>d \<in> set deps. d < int (length sqs) \<longrightarrow> d \<in> visited s'"
      by (simp_all add: dfs_post_def)
    from post1 post2 dep all show ?thesis
      by (auto simp: dfs_post_def)
  next
    case False
    with "4.prems"(1) have "dfs_deps k sqs deps s = Inr s'" by simp
    from "4.IH"(3)[OF False this "4.prems"(2) _ "4.prems"(4,5)] "4.prems"(3) False
    show ?thesis by simp
  qed
qed

lemma visit_all_order:
  "\<lbrakk>visit_all k sqs nodes s = Inr s'; acyclic (dep_edges sqs); temp_visited s = {};
    deps_first (dep_edges sqs) (plan s); set (plan s) = visited s\<rbrakk>
   \<Longrightarrow> dfs_post (dep_edges sqs) s s'"
proof (induction nodes arbitrary: s)
  case Nil
  then show ?case by (simp add: dfs_post_def)
next
  case (Cons node nodes)
  show ?case
  proof (cases "node \<in> visited s")
    case True
    with Cons show ?thesis by simp
  next
    case False
    with Cons.prems(1) obtain s1 where s1: "dfs k sqs node s = Inr s1"
      and rest: "visit_all k sqs nodes s1 = Inr s'"
      by (auto split: sum.splits)
    from Cons.prems(3) have "\<forall>t \<in> temp_visited s. (t, node) \<in> (dep_edges sqs)\<^sup>+" by simp
    from dfs_order(1)[OF s1 Cons.prems(2) this Cons.prems(4,5)]
    have post1: "dfs_post (dep_edges sqs) s s1" by simp
    with Cons.prems(3) have "temp_visited s1 = {}" "deps_first (dep_edges sqs) (plan s1)"
      "set (plan s1) = visited s1"
      by (simp_all add: dfs_post_def)
    from Cons.IH[OF rest Cons.prems(2) this] post1 show ?thesis
      by (auto simp: dfs_post_def)
  qed
qed

lemma dfs_range:
  "\<lbrakk>dfs k sqs node s = Inr s'; \<forall>(i, j) \<in> dep_edges sqs. 0 \<le> j;
    0 \<le> node; node < int (length sqs); visited s \<subseteq> {0..<int (length sqs)}\<rbrakk>
   \<Longrightarrow> visited s' \<subseteq> {0..<int (length sqs)}"
  "\<lbrakk>dfs_deps k sqs deps s = Inr s'; \<forall>(i, j) \<in> dep_edges sqs. 0 \<le> j;
    \<forall>d \<in> set deps. d < int (length sqs) \<longrightarrow> 0 \<le> d;
    visited s \<subseteq> {0..<int (length sqs)}\<rbrakk>
   \<Longrightarrow> visited s' \<subseteq> {0..<int (length sqs)}"
proof (induction k sqs node s and k sqs deps s arbitrary: s' and s'
    rule: dfs_dfs_deps.induct)
  case (1 sqs node s)
  then show ?case by simp
next
  case (2 k sqs node s)
  show ?case
  proof (cases "node \<in> temp_visited s \<or> node \<in> visited s")
    case True
    with "2.prems"(1) have "s' = s" by (auto split: if_splits)
    with "2.prems"(5) show ?thesis by simp
  next
    case False
    define s1 where "s1 = s\<lparr>temp_visited := insert node (temp_visited s)\<rparr>"
    define deps where "deps = (case dependency_graph sqs node of None \<Rightarrow> [] | Some ds \<Rightarrow> ds)"
    from "2.prems"(1) False obtain s2
      where s2: "dfs_deps k sqs deps s1 = Inr s2"
        and s': "visited s' = insert node (visited s2)"
      by (auto simp: s1_def deps_def split: sum.splits if_splits)
    have "\<forall>d \<in> set deps. d < int (length sqs) \<longrightarrow> 0 \<le> d"
      using "2.prems"(2) by (auto simp: dep_edges_def followed_deps_def deps_def)
    with "2.IH"[of s2] False s2 "2.prems"(2,5)
    have "visited s2 \<subseteq> {0..<int (length sqs)}"
      by (simp add: s1_def deps_def)
    with s' "2.prems"(3,4) show ?thesis by simp
  qed
next
  case (3 k sqs s)
  then show ?case by simp
next
  case (4 k sqs dep deps s)
  show ?case
  proof (cases "dep < int (length sqs)")
    case True
    with "4.prems"(1) obtain s1 where s1: "dfs k sqs dep s = Inr s1"
      and rest: "dfs_deps k sqs deps s1 = Inr s'"
      by (auto split: sum.splits)
    from "4.prems"(3) True have "0 \<le> dep" by simp
    from "4.IH"(1)[OF True s1 "4.prems"(2) this True "4.prems"(4)]
    have "visited s1 \<subseteq> {0..<int (length sqs)}" .
    from "4.IH"(2)[OF True s1 rest "4.prems"(2) _ this] "4.prems"(3)
    show ?thesis by simp
  next
    case False
    with "4.prems"(1) have "dfs_deps k sqs deps s = Inr s'" by simp
    from "4.IH"(3)[OF False this "4.prems"(2) _ "4.prems"(4)] "4.prems"(3)
    show ?thesis by simp
  qed
qed

lemma visit_all_range:
  "\<lbrakk>visit_all k sqs nodes s = Inr s'; \<forall>(i, j) \<in> dep_edges sqs. 0 \<le> j;
    \<forall>node \<in> set nodes. 0 \<le> node \<and> node < int (length sqs);
    visited s \<subseteq> {0..<int (length sqs)}\<rbrakk>
   \<Longrightarrow> visited s' \<subseteq> {0..<int (length sqs)}"
proof (induction nodes arbitrary: s)
  case Nil
  then show ?case by simp
next
  case (Cons node nodes)
  show ?case
  proof (cases "node \<in> visited s")
    case True
    with Cons show ?thesis by simp
  next
    case False
    with Cons.prems(1) obtain s1 where s1: "dfs k sqs node s = Inr s1"
      and rest: "visit_all k sqs nodes s1 = Inr s'"
      by (auto split: sum.splits)
    from Cons.prems(3) have n: "0 \<le> node" "node < int (length sqs)" by simp_all
    from dfs_range(1)[OF s1 Cons.prems(2) n Cons.prems(4)]
    have "visited s1 \<subseteq> {0..<int (length sqs)}" .
    from Cons.IH[OF rest Cons.prems(2) _ this] Cons.prems(3) show ?thesis by simp
  qed
qed

lemma planner_in_range_dependencies:
  assumes nonneg: "\<forall>(i, j) \<in> dep_edges sqs. 0 \<le> j" and depth: "length sqs < depth"
  shows "\<exists>p. generate_execution_plan depth sqs = Inr p
            \<and> mset p = mset (map int [0..<length sqs])
            \<and> (acyclic (dep_edges sqs) \<longrightarrow> deps_first (dep_edges sqs) p)"
proof (cases "sqs = []")
  case True
  then show ?thesis
    by (simp add: generate_execution_plan_def deps_first_def)
next
  case False
  define s0 where "s0 = \<lparr>plan = [], visited = {}, temp_visited = ({} :: int set)\<rparr>"
  from generate_execution_plan_total[OF depth]
  obtain p where p: "generate_execution_plan depth sqs = Inr p" "distinct p"
    "int ` {0..<length sqs} \<subseteq> set p"
    by blast
  with False obtain s' where s': "visit_all depth sqs (nodes_by_priority sqs) s0 = Inr s'"
    and plan: "p = plan s'"
    by (auto simp: generate_execution_plan_def s0_def split: sum.splits)
  have ok: "dfs_ok s0 (Inr s')"
    using visit_all_sound[of sqs s0 depth "nodes_by_priority sqs"] depth s'
    by (simp add: s0_def)
  then have vis: "set p = visited s'"
    by (simp add: dfs_ok_def s0_def plan)
  have "\<forall>node \<in> set (nodes_by_priority sqs). 0 \<le> node \<and> node < int (length sqs)"
    by (auto simp: set_nodes_by_priority)
  from visit_all_range[OF s' nonneg this] have "visited s' \<subseteq> {0..<int (length sqs)}"
    by (simp add: s0_def)
  then have "visited s' \<subseteq> int ` {0..<length sqs}"
    by (simp add: image_int_atLeastLessThan)
  with vis p(3) have seteq: "set p = set (map int [0..<length sqs])"
    by auto
  have "distinct (map int [0..<length sqs])"
    by (simp add: distinct_map inj_on_def)
  from set_eq_iff_mset_eq_distinct[OF p(2) this] seteq
  have perm: "mset p = mset (map int [0..<length sqs])"
    by (rule iffD1)
  have "deps_first (dep_edges sqs) p" if "acyclic (dep_edges sqs)"
    using visit_all_order[OF s' that] by (simp add: s0_def deps_first_Nil dfs_post_def plan)
  with p(1) perm show ?thesis by blast
qed

text \<open>
  C2. The planner returns normally on every list of sub-queries, cyclic or not, as long
  as the interpreter allows one more nested call than there are sub-queries (Python's
  default limit is 1000 frames; the decomposer produces at most \<open>max_sub_queries\<close>
  entries). The returned plan has no repetition and contains every index of the list, so
  each index occurs exactly once. A node that is re-entered while it is on the traversal
  stack is left at once, with the state unchanged.
\<close>

theorem planner_terminates_with_cycles:
  assumes "length sqs < depth"
  shows "(\<exists>p. generate_execution_plan depth sqs = Inr p \<and> distinct p \<and>
              (\<forall>i < length sqs. count_list p (int i) = 1))
         \<and> (\<forall>k node s. node \<in> temp_visited s \<longrightarrow> dfs (Suc k) sqs node s = Inr s)"
proof -
  from generate_execution_plan_total[OF assms]
  obtain p where p: "generate_execution_plan depth sqs = Inr p" "distinct p"
    "int ` {0..<length sqs} \<subseteq> set p"
    by blast
  have "count_list p (int i) = 1" if "i < length sqs" for i
  proof -
    from that p(3) have "int i \<in> set p" by auto
    with p(2) show ?thesis by (rule count_list_distinct)
  qed
  with p show ?thesis by auto
qed

text \<open>
  The cycle of the specification: sub-query 0 depends on 1 and sub-query 1 depends on 0.
  With three frames the plan is \<open>[1, 0]\<close>.
\<close>

theorem planner_terminates_with_cycles_witness:
  "length [sq_example 1 [1], sq_example 1 [0]] < 3
   \<and> generate_execution_plan 3 [sq_example 1 [1], sq_example 1 [0]] = Inr [1, 0]
   \<and> (\<exists>p. generate_execution_plan 3 [sq_example 1 [1], sq_example 1 [0]] = Inr p
          \<and> distinct p
          \<and> (\<forall>i < length [sq_example 1 [1], sq_example 1 [0]]. count_list p (int i) = 1))"
proof -
  have "generate_execution_plan 3 [sq_example 1 [1], sq_example 1 [0]] = Inr [1, 0]"
    by (simp add: sq_example_def generate_execution_plan_def nodes_by_priority_def
        dependency_graph_def numeral_3_eq_3)
  moreover have "length [sq_example 1 [1], sq_example 1 [0]] < 3" by simp
  ultimately show ?thesis
    using planner_terminates_with_cycles
      [of "[sq_example 1 [1], sq_example 1 [0]]" 3]
    by blast
qed

text \<open>
  C1. The guard of the dependency loop is \<open>dep < len(sub_queries)\<close> only. A negative
  dependency index passes it, is traversed as a node of its own and is appended to the
  plan: for one sub-query that depends on index \<open>-1\<close> the plan is \<open>[-1, 0]\<close>, which is
  not a permutation of the indices \<open>[0]\<close>, and the out-of-range index was not ignored.
  (For dependency indices that are not negative the claim holds, see
  \<open>planner_in_range_dependencies\<close> above.)
\<close>

theorem planner_negative_dependency:
  "generate_execution_plan 1000 [sq_example 1 [-1]] = Inr [-1, 0]
   \<and> mset [-1, 0] \<noteq> mset (map int [0..<length [sq_example 1 [-1]]])"
  by (simp add: sq_example_def generate_execution_plan_def nodes_by_priority_def
      dependency_graph_def numeral_eq_Suc)

section \<open>Properties of the intent analysis and of the decomposer\<close>

lemma add_if_present_eq:
  "add_if_present w ks q s = s + w * real (length (filter (\<lambda>k. str_in k q) ks))"
  by (induction ks arbitrary: s) (simp_all add: algebra_simps)

lemma raw_complexity_score_eq:
  "raw_complexity_score q =
     min (real (length q) / 50) 3
     + 3 / 2 * real (length (filter (\<lambda>k. str_in k q) complex_keywords))
     + 1 * real (length (filter (\<lambda>k. str_in k q) connectors))
     + 1 / 2 * real (count_list q 63 + count_list q 65311)"
  by (simp add: raw_complexity_score_def add_if_present_eq algebra_simps)

lemma raw_complexity_score_nonneg: "0 \<le> raw_complexity_score q"
  by (simp add: raw_complexity_score_eq)

lemma raw_score_compare_A_B: "raw_complexity_score question_compare_A_B = 67 / 25"
  by (simp add: raw_complexity_score_def question_compare_A_B_def connectors_def
      complex_keywords_def)

lemma raw_score_many_keywords: "raw_complexity_score question_many_keywords = 59 / 5"
  by (simp add: raw_complexity_score_def question_many_keywords_def connectors_def
      complex_keywords_def)

text \<open>
  C5. For every question, the score recorded by the rule-based estimator is the sum of the
  length term \<open>min (len / 50) 3\<close>, 1.5 for each keyword of the first table that occurs in
  the question, 1.0 for each connective that occurs, and 0.5 for each question mark (ASCII
  or full-width), clamped to \<open>[0, 10]\<close>. For every configured threshold of the documented
  range (the setter documents 0 to 10; only the upper bound is needed),
  \<open>requires_decomposition\<close> is true exactly when the recorded, clamped score is greater than
  or equal to the threshold. The default threshold is 6.0.
\<close>

theorem rule_based_complexity_score:
  fixes cfg :: decomposer_config and q :: str
  defines "points \<equiv>
     min (real (length q) / 50) 3
     + 3 / 2 * real (length (filter (\<lambda>k. str_in k q) complex_keywords))
     + 1 * real (length (filter (\<lambda>k. str_in k q) connectors))
     + 1 / 2 * real (count_list q 63 + count_list q 65311)"
  shows "complexity_score (rule_based_intent_analysis cfg q) = max 0 (min points 10)
     \<and> (decomposition_threshold cfg \<le> 10 \<longrightarrow>
          (requires_decomposition (rule_based_intent_analysis cfg q)
             \<longleftrightarrow> complexity_score (rule_based_intent_analysis cfg q)
                   \<ge> decomposition_threshold cfg))
     \<and> decomposition_threshold default_config = 6"
proof -
  have points: "raw_complexity_score q = points"
    unfolding points_def by (rule raw_complexity_score_eq)
  have "0 \<le> points"
    using raw_complexity_score_nonneg[of q] by (simp add: points)
  then show ?thesis
    by (auto simp: rule_based_intent_analysis_def Let_def points default_config_def)
qed

theorem rule_based_complexity_score_witness:
  "decomposition_threshold default_config \<le> 10
   \<and> complexity_score (rule_based_intent_analysis default_config question_many_keywords) = 10
   \<and> requires_decomposition (rule_based_intent_analysis default_config question_many_keywords)
   \<and> complexity_score (rule_based_intent_analysis default_config question_compare_A_B) = 67 / 25
   \<and> \<not> requires_decomposition (rule_based_intent_analysis default_config question_compare_A_B)"
proof -
  have thr: "decomposition_threshold default_config \<le> 10"
    by (simp add: default_config_def)
  have a: "complexity_score (rule_based_intent_analysis default_config question_many_keywords) = 10"
    and b: "complexity_score (rule_based_intent_analysis default_config question_compare_A_B) = 67 / 25"
    by (simp_all add: rule_based_intent_analysis_def Let_def raw_score_many_keywords
        raw_score_compare_A_B)
  from rule_based_complexity_score[of default_config question_many_keywords,
      THEN conjunct2, THEN conjunct1, rule_format, OF thr] a
  have "requires_decomposition (rule_based_intent_analysis default_config question_many_keywords)"
    by (simp add: default_config_def)
  moreover
  from rule_based_complexity_score[of default_config question_compare_A_B,
      THEN conjunct2, THEN conjunct1, rule_format, OF thr] b
  have "\<not> requires_decomposition (rule_based_intent_analysis default_config question_compare_A_B)"
    by (simp add: default_config_def)
  ultimately show ?thesis using thr a b by simp
qed

text \<open>
  C6. When the analysed intent does not require decomposition, the decomposer returns
  normally, whatever the language model and the configuration are; the result has exactly
  one sub-query, whose text is the question, with no dependencies (\<open>depends_on\<close> is
  \<open>None\<close>, which the planner reads as the empty list), and the plan is \<open>[0]\<close>.
\<close>

theorem no_decomposition_single_sub_query:
  assumes "\<not> requires_decomposition (analyze_query_intent llm cfg q)"
  shows "\<exists>r. analyze_and_decompose depth llm cfg q = Inr r
            \<and> length (sub_queries r) = 1
            \<and> query (sub_queries r ! 0) = q
            \<and> depends_on (sub_queries r ! 0) = None
            \<and> dependency_graph (sub_queries r) 0 = Some []
            \<and> execution_plan r = [0]
            \<and> original_query r = q
            \<and> dr_intent r = analyze_query_intent llm cfg q"
  using assms
  by (simp add: analyze_and_decompose_def Let_def SubQuery3_def dependency_graph_def)

theorem no_decomposition_single_sub_query_witness:
  "\<not> requires_decomposition (analyze_query_intent None default_config question_compare_A_B)
   \<and> (\<exists>r. analyze_and_decompose 0 None default_config question_compare_A_B = Inr r
          \<and> length (sub_queries r) = 1
          \<and> query (sub_queries r ! 0) = question_compare_A_B
          \<and> depends_on (sub_queries r ! 0) = None
          \<and> execution_plan r = [0])"
proof -
  have "\<not> requires_decomposition
            (analyze_query_intent None default_config question_compare_A_B)"
    by (simp add: analyze_query_intent_def rule_based_intent_analysis_def Let_def
        raw_score_compare_A_B default_config_def)
  then show ?thesis
    using no_decomposition_single_sub_query
      [of None default_config question_compare_A_B 0]
    by blast
qed

lemma split_compare_A_B: "py_split question_compare_A_B = [question_compare_A_B]"
  by (simp add: py_split_def question_compare_A_B_def is_space_def)

lemma key_concepts_compare_A_B:
  "key_concepts (rule_based_intent_analysis cfg question_compare_A_B) = [question_compare_A_B]"
  by (simp add: rule_based_intent_analysis_def Let_def split_compare_A_B)
     (simp add: question_compare_A_B_def concept_stop_words_def)

lemma intent_type_compare_A_B:
  "intent_type (rule_based_intent_analysis cfg question_compare_A_B) = ascii ''comparative''"
  by (simp add: rule_based_intent_analysis_def Let_def any_in_def comparative_words_def
      question_compare_A_B_def)

text \<open>
  C9, as the specification states it, fails. On the rule-based path the scenario question
  scores 2.68, below the threshold 6.0, so it is not decomposed: the result has one
  sub-query. The rule-based decomposition itself, applied to the intent of this question,
  yields no sub-query at all, under any configuration: the question contains no white
  space, so the key-concept extraction (\<open>query.split()\<close>) finds a single concept and the
  comparative strategy needs two.
\<close>

theorem compare_A_B_counterexample:
  "\<not> (\<exists>r. analyze_and_decompose 1000 None default_config question_compare_A_B = Inr r
           \<and> 3 \<le> length (sub_queries r))
   \<and> \<not> 3 \<le> length (rule_based_decomposition question_compare_A_B
                      (rule_based_intent_analysis default_config question_compare_A_B))"
proof -
  have "\<not> requires_decomposition
            (analyze_query_intent None default_config question_compare_A_B)"
    by (simp add: analyze_query_intent_def rule_based_intent_analysis_def Let_def
        raw_score_compare_A_B default_config_def)
  then have "\<exists>r. analyze_and_decompose 1000 None default_config question_compare_A_B = Inr r
                \<and> length (sub_queries r) = 1"
    by (simp add: analyze_and_decompose_def Let_def)
  moreover have "rule_based_decomposition question_compare_A_B
                   (rule_based_intent_analysis default_config question_compare_A_B) = []"
    by (simp add: rule_based_decomposition_def intent_type_compare_A_B
        decompose_comparative_query_def key_concepts_compare_A_B)
  ultimately show ?thesis by auto
qed

text \<open>
  C9, amended. For an intent of type \<open>comparative\<close> with at least two key concepts (the
  rule-based analysis finds key concepts as white-space separated words of more than two
  characters), the rule-based decomposition yields exactly three sub-queries: one for each
  of the first two concepts, with priority 1 and no dependencies, and a comparison of the
  two with priority 2 that depends on indices 0 and 1 and needs their context. With a
  recursion depth of at least 2 the planner returns \<open>[0, 1, 2]\<close>: the comparison is last.
  The scenario question itself is not decomposed on the rule-based path with the default
  configuration: the result is the single sub-query equal to the question, with plan
  \<open>[0]\<close>.
\<close>

theorem comparative_decomposition:
  assumes "intent_type i = ascii ''comparative''"
    and "2 \<le> length (key_concepts i)"
    and "2 \<le> depth"
  shows "length (rule_based_decomposition q i) = 3
     \<and> query (rule_based_decomposition q i ! 0)
         = key_concepts i ! 0 @ [30340, 29305, 28857, 21644, 23646, 24615]
     \<and> query (rule_based_decomposition q i ! 1)
         = key_concepts i ! 1 @ [30340, 29305, 28857, 21644, 23646, 24615]
     \<and> query (rule_based_decomposition q i ! 2)
         = key_concepts i ! 0 @ [21644] @ key_concepts i ! 1
           @ [30340, 27604, 36739, 20998, 26512]
     \<and> map priority (rule_based_decomposition q i) = [1, 1, 2]
     \<and> map depends_on (rule_based_decomposition q i) = [None, None, Some [0, 1]]
     \<and> map context_needed (rule_based_decomposition q i) = [False, False, True]
     \<and> generate_execution_plan depth (rule_based_decomposition q i) = Inr [0, 1, 2]
     \<and> (\<exists>r. analyze_and_decompose depth None default_config question_compare_A_B = Inr r
            \<and> sub_queries r = [SubQuery3 question_compare_A_B (ascii ''simple'') 1]
            \<and> execution_plan r = [0])"
proof -
  from assms(2) obtain c0 c1 cs where cs: "key_concepts i = c0 # c1 # cs"
    by (cases "key_concepts i"; cases "tl (key_concepts i)") auto
  from assms(3) obtain d where d: "depth = Suc (Suc d)"
    by (cases depth; cases "depth - 1") auto
  have sqs: "rule_based_decomposition q i =
      [SubQuery3 (c0 @ [30340, 29305, 28857, 21644, 23646, 24615])
         ([20102, 35299] @ c0 @ [30340, 22522, 26412, 20449, 24687]) 1,
       SubQuery3 (c1 @ [30340, 29305, 28857, 21644, 23646, 24615])
         ([20102, 35299] @ c1 @ [30340, 22522, 26412, 20449, 24687]) 1,
       \<lparr>query = c0 @ [21644] @ c1 @ [30340, 27604, 36739, 20998, 26512],
         intent = [27604, 36739, 20998, 26512, 20004, 32773, 30340, 24046, 24322],
         priority = 2, depends_on = Some [0, 1], context_needed = True\<rparr>]"
    using assms(1) by (simp add: rule_based_decomposition_def decompose_comparative_query_def cs)
  have "generate_execution_plan depth (rule_based_decomposition q i) = Inr [0, 1, 2]"
    unfolding sqs d
    by (simp add: generate_execution_plan_def nodes_by_priority_def dependency_graph_def
        SubQuery3_def)
  moreover
  have "\<not> requires_decomposition
            (analyze_query_intent None default_config question_compare_A_B)"
    by (simp add: analyze_query_intent_def rule_based_intent_analysis_def Let_def
        raw_score_compare_A_B default_config_def)
  then have "\<exists>r. analyze_and_decompose depth None default_config question_compare_A_B = Inr r
            \<and> sub_queries r = [SubQuery3 question_compare_A_B (ascii ''simple'') 1]
            \<and> execution_plan r = [0]"
    by (simp add: analyze_and_decompose_def Let_def)
  ultimately show ?thesis
    by (simp add: sqs cs SubQuery3_def)
qed

lemma split_python_java:
  "py_split question_python_java = [[27604, 36739], ascii ''Python'', ascii ''Java'']"
  by (simp add: py_split_def question_python_java_def is_space_def ascii_def)

theorem comparative_decomposition_witness:
  "intent_type (rule_based_intent_analysis default_config question_python_java)
     = ascii ''comparative''
   \<and> 2 \<le> length (key_concepts (rule_based_intent_analysis default_config question_python_java))
   \<and> (2::nat) \<le> 2
   \<and> length (rule_based_decomposition question_python_java
        (rule_based_intent_analysis default_config question_python_java)) = 3
   \<and> generate_execution_plan 2
        (rule_based_decomposition question_python_java
           (rule_based_intent_analysis default_config question_python_java))
       = Inr [0, 1, 2]"
proof -
  have a: "intent_type (rule_based_intent_analysis default_config question_python_java)
             = ascii ''comparative''"
    by (simp add: rule_based_intent_analysis_def Let_def any_in_def comparative_words_def
        question_python_java_def)
  have b: "key_concepts (rule_based_intent_analysis default_config question_python_java)
             = [ascii ''Python'', ascii ''Java'']"
    by (simp add: rule_based_intent_analysis_def Let_def split_python_java)
       (simp add: ascii_def concept_stop_words_def)
  then have c: "2 \<le> length (key_concepts
                   (rule_based_intent_analysis default_config question_python_java))"
    by simp
  from comparative_decomposition[OF a c, of 2 question_python_java] a c
  show ?thesis by simp
qed

section \<open>Properties of the reranker\<close>

text \<open>
  C10. A candidate whose \<open>chunk_type\<close> is present and is none of \<open>text\<close>, \<open>table\<close>
  and \<open>image\<close> gets the content-type score 0.5; a candidate without the field is treated
  as \<open>text\<close> and gets 1.0. The default 0.5 is strictly below the three weights of the
  table, 1.0, 0.9 and 0.8.
\<close>

theorem content_type_default_score:
  "(t \<noteq> ascii ''text'' \<and> t \<noteq> ascii ''table'' \<and> t \<noteq> ascii ''image''
      \<longrightarrow> content_type_score_of (r\<lparr>chunk_type := Some t\<rparr>) = 1 / 2)
   \<and> content_type_score_of (r\<lparr>chunk_type := None\<rparr>) = 1
   \<and> content_type_score_of (r\<lparr>chunk_type := Some (ascii ''text'')\<rparr>) = 1
   \<and> content_type_score_of (r\<lparr>chunk_type := Some (ascii ''table'')\<rparr>) = 9 / 10
   \<and> content_type_score_of (r\<lparr>chunk_type := Some (ascii ''image'')\<rparr>) = 8 / 10
   \<and> (\<forall>w \<in> ran content_type_weights. (1 / 2 :: real) < w)
   \<and> calculate_content_type_scores rs = map content_type_score_of rs"
  by (auto simp: content_type_score_of_def content_type_weights_def get_or_def
      calculate_content_type_scores_def ascii_eq_iff ran_def split: if_splits)

theorem content_type_default_score_witness:
  "ascii ''formula'' \<noteq> ascii ''text'' \<and> ascii ''formula'' \<noteq> ascii ''table''
   \<and> ascii ''formula'' \<noteq> ascii ''image''
   \<and> content_type_score_of (chunk [88] 1 (ascii ''formula'')) = 1 / 2
   \<and> calculate_content_type_scores
        [chunk [88] 1 (ascii ''formula''), chunk [88] 1 (ascii ''image''),
         (chunk [88] 1 [])\<lparr>chunk_type := None\<rparr>]
       = [1 / 2, 8 / 10, 1]"
  using content_type_default_score
    [of "ascii ''formula''" "chunk [88] 1 []"
        "[chunk [88] 1 (ascii ''formula''), chunk [88] 1 (ascii ''image''),
          (chunk [88] 1 [])\<lparr>chunk_type := None\<rparr>]"]
  by (simp add: ascii_eq_iff chunk_def)

lemma position_score_of_defined:
  assumes "position_defined r"
  shows "position_score_of r =
     Inr ((1 / (1 + ln (real_of_int (get_or (page_num r) 1)))
           + 1 / (1 + real_of_int (get_or (chunk_index r) 0) * (1 / 10))) / 2)"
proof -
  from assms have p: "0 < get_or (page_num r) 1" and i: "get_or (chunk_index r) 0 \<noteq> - 10"
    by (simp_all add: position_defined_def)
  from p have "1 \<le> real_of_int (get_or (page_num r) 1)" by linarith
  then have "0 \<le> ln (real_of_int (get_or (page_num r) 1))" by (rule ln_ge_zero)
  then have a: "1 + ln (real_of_int (get_or (page_num r) 1)) \<noteq> 0" by linarith
  have b: "1 + real_of_int (get_or (chunk_index r) 0) * (1 / 10) \<noteq> 0"
  proof
    assume "1 + real_of_int (get_or (chunk_index r) 0) * (1 / 10) = 0"
    then have "real_of_int (get_or (chunk_index r) 0) = real_of_int (- 10)" by simp
    then have "get_or (chunk_index r) 0 = - 10" by (simp only: of_int_eq_iff)
    with i show False by simp
  qed
  from p a b show ?thesis
    by (simp add: position_score_of_def Let_def)
qed

lemma calculate_position_scores_defined:
  assumes "\<forall>r \<in> set rs. position_defined r"
  shows "calculate_position_scores rs = Inr (map (\<lambda>r. projr (position_score_of r)) rs)"
  using assms
proof (induction rs)
  case Nil
  then show ?case by simp
next
  case (Cons r rs)
  then have "position_defined r" by simp
  then obtain p where "position_score_of r = Inr p"
    by (rule position_score_of_defined[THEN exI[where P = "\<lambda>p. position_score_of r = Inr p"], THEN exE])
  with Cons show ?case by simp
qed

lemma attach_all_map:
  "attach_all rs (map f1 rs) (map f2 rs) (map f3 rs) (map f4 rs)
     = Inr (map (\<lambda>r. attach_scores (f1 r) (f2 r) (f3 r) (f4 r) r) rs)"
  by (induction rs) simp_all

lemma semantic_scores_pointwise:
  assumes "pointwise_model m q"
  shows "\<exists>g. (\<forall>rs. calculate_semantic_scores m q rs = map (\<lambda>r. g (content r) (score r)) rs)
           \<and> (m = None \<longrightarrow> g = (\<lambda>c s. get_or s 0))"
proof (cases m)
  case None
  show ?thesis
    by (rule exI[of _ "\<lambda>c s. get_or s 0"]) (simp add: calculate_semantic_scores_def None)
next
  case (Some encode)
  with assms consider "\<forall>cs. encode q cs = None" | f where "\<forall>cs. encode q cs = Some (map f cs)"
    by (auto simp: pointwise_model_def)
  then show ?thesis
  proof cases
    case 1
    show ?thesis
      by (rule exI[of _ "\<lambda>c s. get_or s 0"]) (simp add: calculate_semantic_scores_def Some 1)
  next
    case 2
    show ?thesis
      by (rule exI[of _ "\<lambda>c s. f (get_or c [])"])
         (simp add: calculate_semantic_scores_def Some 2 comp_def)
  qed
qed

lemma sub_scores_attach [simp]:
  "content (attach_scores s k c p r) = content r"
  "score (attach_scores s k c p r) = score r"
  "chunk_type (attach_scores s k c p r) = chunk_type r"
  "page_num (attach_scores s k c p r) = page_num r"
  "chunk_index (attach_scores s k c p r) = chunk_index r"
  "rerank_score (attach_scores s k c p r) = Some (s * (4 / 10) + k * (3 / 10) + c * (2 / 10) + p * (1 / 10))"
  "semantic_score (attach_scores s k c p r) = Some s"
  "keyword_score (attach_scores s k c p r) = Some k"
  "content_type_score (attach_scores s k c p r) = Some c"
  "position_score (attach_scores s k c p r) = Some p"
  by (simp_all add: attach_scores_def)

lemma functions_of_attach [simp]:
  "keyword_score_of u ks (attach_scores s k c p r) = keyword_score_of u ks r"
  "content_type_score_of (attach_scores s k c p r) = content_type_score_of r"
  "position_score_of (attach_scores s k c p r) = position_score_of r"
  "position_defined (attach_scores s k c p r) = position_defined r"
  "strip_scores (attach_scores s k c p r) = strip_scores r"
  by (simp_all add: keyword_score_of_def content_type_score_of_def position_score_of_def
      position_defined_def)
     (simp add: attach_scores_def strip_scores_def)

lemma attach_scores_idem:
  "attach_scores s k c p (attach_scores s k c p r) = attach_scores s k c p r"
  by (simp add: attach_scores_def)

text \<open>
  C4, as the specification states it, fails: not every candidate list is reranked. The
  position score takes the logarithm of the page number, so a candidate with
  \<open>page_num = 0\<close> makes \<open>rerank\<close> raise \<open>ValueError\<close> instead of returning a
  permutation of its input (and \<open>chunk_index = -10\<close> makes it divide by zero).
\<close>

theorem rerank_page_zero_counterexample:
  "rerank ascii_db None (ascii ''x'') [chunk_A\<lparr>page_num := Some 0\<rparr>] = Inl ValueError
   \<and> rerank ascii_db None (ascii ''x'') [chunk_A\<lparr>chunk_index := Some (- 10)\<rparr>]
       = Inl ZeroDivisionError"
  by (simp add: rerank_def Let_def position_score_of_def get_or_def chunk_A_def chunk_def)

text \<open>
  C4, amended. Let every candidate have a page number of at least 1 and a chunk index other
  than \<open>-10\<close> (absent fields count as 1 and 0), and let the embedding model, if any,
  score each content independently of the others. Then \<open>rerank\<close> returns normally. Its
  output is a permutation of the list \<open>scored\<close>, which is the input, in the input order,
  with five score fields attached to each candidate: the sub-scores, and their weighted sum
  0.4 semantic + 0.3 keyword + 0.2 content type + 0.1 position as \<open>rerank_score\<close>. The
  output is in descending order of \<open>rerank_score\<close>; candidates with equal
  \<open>rerank_score\<close> keep their relative input order; and reranking the output again
  returns it unchanged.
\<close>

theorem rerank_sorted_permutation:
  assumes pos: "\<forall>r \<in> set rs. position_defined r" and pw: "pointwise_model m q"
  shows "\<exists>scored out.
      rerank u m q rs = Inr out
    \<and> map strip_scores scored = map strip_scores rs
    \<and> mset out = mset scored
    \<and> (\<forall>r \<in> set scored. \<exists>s p.
          semantic_score r = Some s \<and> (m = None \<longrightarrow> s = get_or (score r) 0)
        \<and> keyword_score r = Some (keyword_score_of u (extract_keywords u q) r)
        \<and> content_type_score r = Some (content_type_score_of r)
        \<and> position_score_of r = Inr p \<and> position_score r = Some p
        \<and> rerank_score r =
            Some (4 / 10 * s + 3 / 10 * keyword_score_of u (extract_keywords u q) r
                  + 2 / 10 * content_type_score_of r + 1 / 10 * p))
    \<and> sorted_wrt (\<lambda>a b. get_or (rerank_score a) 0 \<ge> get_or (rerank_score b) 0) out
    \<and> (\<forall>x. filter (\<lambda>r. rerank_score r = Some x) out
             = filter (\<lambda>r. rerank_score r = Some x) scored)
    \<and> rerank u m q out = Inr out"
proof -
  from semantic_scores_pointwise[OF pw] obtain g
    where sem0: "\<forall>xs. calculate_semantic_scores m q xs = map (\<lambda>r. g (content r) (score r)) xs"
      and g_none0: "m = None \<longrightarrow> g = (\<lambda>c s. get_or s 0)"
    by (elim exE conjE)
  from sem0 have sem: "calculate_semantic_scores m q xs = map (\<lambda>r. g (content r) (score r)) xs"
    for xs by simp
  from g_none0 have g_none: "m = None \<Longrightarrow> g = (\<lambda>c s. get_or s 0)" by simp
  define A where "A r = attach_scores (g (content r) (score r))
      (keyword_score_of u (extract_keywords u q) r) (content_type_score_of r)
      (projr (position_score_of r)) r" for r
  define key where "key x = - get_or (rerank_score x) 0" for x :: result
  have key_eq: "(\<lambda>x. - get_or (rerank_score x) 0) = key"
    by (rule ext) (simp add: key_def)
  have run: "rerank u m q xs = Inr (sort_key key (map A xs))"
    if "\<forall>r \<in> set xs. position_defined r" for xs
  proof (cases "xs = []")
    case True
    then show ?thesis by (simp add: rerank_def)
  next
    case False
    have "attach_all xs (calculate_semantic_scores m q xs) (calculate_keyword_scores u q xs)
            (calculate_content_type_scores xs) (map (\<lambda>r. projr (position_score_of r)) xs)
          = Inr (map A xs)"
      unfolding sem calculate_keyword_scores_def calculate_content_type_scores_def A_def
      by (rule attach_all_map)
    with False that show ?thesis
      by (simp add: rerank_def Let_def calculate_position_scores_defined key_eq)
  qed
  have A_idem: "A (A r) = A r" for r
    by (simp add: A_def attach_scores_idem)
  define scored where "scored = map A rs"
  define out where "out = sort_key key scored"
  have 1: "rerank u m q rs = Inr out"
    using run[OF pos] by (simp add: out_def scored_def)
  have 2: "map strip_scores scored = map strip_scores rs"
    by (simp add: scored_def A_def)
  have 3: "mset out = mset scored"
    by (simp add: out_def)
  have 4: "\<exists>s p.
          semantic_score r = Some s \<and> (m = None \<longrightarrow> s = get_or (score r) 0)
        \<and> keyword_score r = Some (keyword_score_of u (extract_keywords u q) r)
        \<and> content_type_score r = Some (content_type_score_of r)
        \<and> position_score_of r = Inr p \<and> position_score r = Some p
        \<and> rerank_score r =
            Some (4 / 10 * s + 3 / 10 * keyword_score_of u (extract_keywords u q) r
                  + 2 / 10 * content_type_score_of r + 1 / 10 * p)"
    if "r \<in> set scored" for r
  proof -
    from that obtain r0 where r0: "r0 \<in> set rs" "r = A r0"
      by (auto simp: scored_def)
    from r0(1) pos have "position_defined r0" by simp
    then have "position_score_of r0 = Inr (projr (position_score_of r0))"
      using position_score_of_defined[of r0] by simp
    then show ?thesis
      using g_none by (auto simp: r0(2) A_def algebra_simps)
  qed
  have "sorted (map key out)"
    by (simp add: out_def)
  then have 5: "sorted_wrt (\<lambda>a b. get_or (rerank_score a) 0 \<ge> get_or (rerank_score b) 0) out"
    by (simp add: sorted_map key_def)
  have some: "\<exists>x. rerank_score r = Some x" if "r \<in> set scored" for r
    using that by (auto simp: scored_def A_def)
  have eqv: "(rerank_score r = Some x) = (key r = - x)" if "r \<in> set scored" for r x
    using some[OF that] by (auto simp: key_def get_or_def)
  have 6: "filter (\<lambda>r. rerank_score r = Some x) out
             = filter (\<lambda>r. rerank_score r = Some x) scored" for x
  proof -
    have "filter (\<lambda>r. rerank_score r = Some x) out = filter (\<lambda>r. key r = - x) out"
      by (rule filter_cong) (simp_all add: eqv out_def)
    also have "\<dots> = filter (\<lambda>r. key r = - x) scored"
      unfolding out_def by (rule sort_key_stable)
    also have "\<dots> = filter (\<lambda>r. rerank_score r = Some x) scored"
      by (rule filter_cong) (simp_all add: eqv)
    finally show ?thesis .
  qed
  have pos_out: "\<forall>r \<in> set out. position_defined r"
    using pos by (auto simp: out_def scored_def A_def)
  have "map A out = out"
    by (rule map_idI) (auto simp: out_def scored_def A_idem)
  then have 7: "rerank u m q out = Inr out"
    using run[OF pos_out] \<open>sorted (map key out)\<close> by (simp add: sort_key_id_if_sorted)
  from 1 2 3 4 5 6 7 show ?thesis by blast
qed

text \<open>
  Three candidates with retrieval scores 0.5, 0.9 and 0.5, no embedding model and an empty
  query: the weighted sums are 0.5, 0.66 and 0.5, so \<open>B\<close> comes first and the tie between
  \<open>A\<close> and \<open>C\<close> keeps the input order.
\<close>

theorem rerank_sorted_permutation_witness:
  "position_defined chunk_A \<and> position_defined chunk_B \<and> position_defined chunk_C
   \<and> pointwise_model None []
   \<and> (\<exists>out. rerank ascii_db None [] [chunk_A, chunk_B, chunk_C] = Inr out
          \<and> map content out = [Some (ascii ''B''), Some (ascii ''A''), Some (ascii ''C'')]
          \<and> map rerank_score out = [Some (66 / 100), Some (5 / 10), Some (5 / 10)]
          \<and> rerank ascii_db None [] out = Inr out)"
proof -
  have pos: "\<forall>r \<in> set [chunk_A, chunk_B, chunk_C]. position_defined r"
    by (simp add: position_defined_def get_or_def chunk_A_def chunk_B_def chunk_C_def chunk_def)
  have pw: "pointwise_model None []"
    by (simp add: pointwise_model_def)
  from rerank_sorted_permutation[OF pos pw, of ascii_db]
  obtain out where out: "rerank ascii_db None [] [chunk_A, chunk_B, chunk_C] = Inr out"
    and again: "rerank ascii_db None [] out = Inr out"
    by blast
  have kw: "keyword_score_of ascii_db [] r = 0" for r
    by (simp add: keyword_score_of_def Let_def calculate_keyword_position_bonus_def
        calculate_keyword_frequency_bonus_def)
  have ps: "position_score_of (chunk c s t) = Inr 1" for c s t
    by (simp add: position_score_of_def Let_def get_or_def chunk_def)
  have ct: "content_type_score_of (chunk c s (ascii ''text'')) = 1" for c s
    by (simp add: content_type_score_of_def Let_def get_or_def chunk_def content_type_weights_def
        ascii_eq_iff)
  have "rerank ascii_db None [] [chunk_A, chunk_B, chunk_C]
          = Inr [attach_scores (9 / 10) 0 1 1 chunk_B, attach_scores (5 / 10) 0 1 1 chunk_A,
                 attach_scores (5 / 10) 0 1 1 chunk_C]"
    apply (simp add: rerank_def Let_def calculate_semantic_scores_def calculate_keyword_scores_def
        calculate_content_type_scores_def extract_keywords_def kw)
    apply (simp add: chunk_A_def chunk_B_def chunk_C_def ps ct)
    apply (simp add: chunk_def attach_scores_def get_or_def)
    done
  with out have "out = [attach_scores (9 / 10) 0 1 1 chunk_B, attach_scores (5 / 10) 0 1 1 chunk_A,
                 attach_scores (5 / 10) 0 1 1 chunk_C]"
    by simp
  then have "map content out = [Some (ascii ''B''), Some (ascii ''A''), Some (ascii ''C'')]"
    and "map rerank_score out = [Some (66 / 100), Some (5 / 10), Some (5 / 10)]"
    by (simp_all add: chunk_A_def chunk_B_def chunk_C_def chunk_def)
  with out again
  have "\<exists>out. rerank ascii_db None [] [chunk_A, chunk_B, chunk_C] = Inr out
          \<and> map content out = [Some (ascii ''B''), Some (ascii ''A''), Some (ascii ''C'')]
          \<and> map rerank_score out = [Some (66 / 100), Some (5 / 10), Some (5 / 10)]
          \<and> rerank ascii_db None [] out = Inr out"
    by - (rule exI[of _ out], simp)
  moreover from pos have "position_defined chunk_A" "position_defined chunk_B"
    "position_defined chunk_C"
    by simp_all
  ultimately show ?thesis using pw by - (intro conjI, assumption+)
qed

section \<open>Properties of the merge step\<close>

lemma filter_dedup_by_hash:
  "filter (\<lambda>r. hash_key h r = k) (dedup_by_hash h seen xs)
     = (if k \<in> seen then [] else take 1 (filter (\<lambda>r. hash_key h r = k) xs))"
proof (induction xs arbitrary: seen)
  case Nil
  then show ?case by simp
next
  case (Cons x xs)
  show ?case
  proof (cases "hash_key h x \<in> seen")
    case True
    with Cons show ?thesis by (auto simp: hash_key_def Let_def)
  next
    case False
    with Cons show ?thesis by (auto simp: hash_key_def Let_def)
  qed
qed

lemma set_dedup_by_hash: "set (dedup_by_hash h seen xs) \<subseteq> set xs"
  by (induction xs arbitrary: seen) (auto simp: Let_def)

lemma distinct_dedup_by_hash:
  "distinct (map (hash_key h) (dedup_by_hash h seen xs))
   \<and> hash_key h ` set (dedup_by_hash h seen xs) \<inter> seen = {}"
proof (induction xs arbitrary: seen)
  case Nil
  then show ?case by simp
next
  case (Cons x xs)
  from Cons[of seen] Cons[of "insert (h (get_or (content x) [])) seen"]
  show ?case by (auto simp: Let_def hash_key_def)
qed

lemma dedup_by_hash_id:
  "distinct (map (hash_key h) xs) \<Longrightarrow> hash_key h ` set xs \<inter> seen = {}
     \<Longrightarrow> dedup_by_hash h seen xs = xs"
proof (induction xs arbitrary: seen)
  case Nil
  then show ?case by simp
next
  case (Cons x xs)
  from Cons.prems have nx: "hash_key h x \<notin> seen"
    and d: "distinct (map (hash_key h) xs)"
    and i: "hash_key h ` set xs \<inter> insert (hash_key h x) seen = {}"
    by auto
  from Cons.IH[OF d i] have "dedup_by_hash h (insert (hash_key h x) seen) xs = xs" .
  with nx show ?case by (simp add: Let_def hash_key_def)
qed

lemma length_filter_mono:
  "(\<And>x. x \<in> set xs \<Longrightarrow> P x \<Longrightarrow> Q x) \<Longrightarrow> length (filter P xs) \<le> length (filter Q xs)"
  by (induction xs) auto

lemma sorted_wrt_hd_filter:
  assumes "sorted_wrt R xs" and "x \<in> set xs" and "P x" and "\<And>a. R a a"
  shows "R (hd (filter P xs)) x"
  using assms
proof (induction xs)
  case Nil
  then show ?case by simp
next
  case (Cons a xs)
  then show ?case by (cases "P a") auto
qed

lemma sorted_wrt_dedup_by_hash:
  "sorted_wrt R xs \<Longrightarrow> sorted_wrt R (dedup_by_hash h seen xs)"
proof (induction xs arbitrary: seen)
  case Nil
  then show ?case by simp
next
  case (Cons x xs)
  then show ?case
    using set_dedup_by_hash[of h "insert (h (get_or (content x) [])) seen" xs]
    by (auto simp: Let_def)
qed

lemma combined_score_of_update [simp]:
  "combined_score_of (r\<lparr>combined_score := c\<rparr>) = combined_score_of r"
  by (simp add: combined_score_of_def)

lemma hash_key_update [simp]:
  "hash_key h (r\<lparr>combined_score := c\<rparr>) = hash_key h r"
  by (simp add: hash_key_def)

lemma sorted_sort_results:
  "sorted_wrt (\<lambda>a b. get_or (combined_score a) 0 \<ge> get_or (combined_score b) 0)
     (sort_results xs)"
proof -
  have "sorted (map (\<lambda>x. - get_or (combined_score x) 0) (sort_results xs))"
    by (simp add: sort_results_def)
  then show ?thesis by (simp add: sorted_map)
qed

lemma sort_results_id:
  assumes "sorted_wrt (\<lambda>a b. get_or (combined_score a) 0 \<ge> get_or (combined_score b) 0) xs"
  shows "sort_results xs = xs"
proof -
  from assms have "sorted (map (\<lambda>x. - get_or (combined_score x) 0) xs)"
    by (simp add: sorted_map)
  then show ?thesis
    unfolding sort_results_def by (rule sort_key_id_if_sorted)
qed

text \<open>
  C3. Each raw hit gets \<open>combined_score = score * (0.7 + 0.3 * priority)\<close>, where the
  priority is \<open>priority_score\<close> (0.5 when absent), multiplied by 0.3 when the content
  category is \<open>references\<close>. The hits are then put in descending order of the combined
  score (a permutation), and for each hash value exactly the first hit of that order with
  this hash is kept. Hence for every raw hit the output holds exactly one entry with its
  content hash, and that entry has the highest combined score among the hits with this
  hash; at most one entry with its content; and exactly one entry with its content when
  the hash does not collide on the contents present. Merging the same chunk twice yields
  one entry, and merging an already merged list changes nothing.
\<close>

theorem merge_results_dedup:
  "map combined_score (score_results rs)
     = map (\<lambda>r. Some (get_or (score r) 0
                        * (7 / 10 + 3 / 10
                           * (if get_or (content_category r) (ascii ''other'') = ascii ''references''
                              then get_or (priority_score r) (5 / 10) * (3 / 10)
                              else get_or (priority_score r) (5 / 10))))) rs
   \<and> mset (sort_results (score_results rs)) = mset (score_results rs)
   \<and> sorted_wrt (\<lambda>a b. get_or (combined_score a) 0 \<ge> get_or (combined_score b) 0)
         (sort_results (score_results rs))
   \<and> (\<forall>k. filter (\<lambda>r. hash_key h r = k) (merge_results h rs)
            = take 1 (filter (\<lambda>r. hash_key h r = k) (sort_results (score_results rs))))
   \<and> (\<forall>r \<in> set rs. \<exists>x \<in> set (merge_results h rs).
          hash_key h x = hash_key h r \<and> get_or (combined_score x) 0 \<ge> combined_score_of r)
   \<and> (\<forall>r \<in> set rs.
          length (filter (\<lambda>x. hash_key h x = hash_key h r) (merge_results h rs)) = 1)
   \<and> (\<forall>r \<in> set rs.
          length (filter (\<lambda>x. get_or (content x) [] = get_or (content r) [])
                    (merge_results h rs)) \<le> 1)
   \<and> (inj_on h ((\<lambda>r. get_or (content r) []) ` set rs) \<longrightarrow>
        (\<forall>r \<in> set rs.
           length (filter (\<lambda>x. get_or (content x) [] = get_or (content r) [])
                     (merge_results h rs)) = 1))
   \<and> merge_results h [r, r] = [r\<lparr>combined_score := Some (combined_score_of r)\<rparr>]
   \<and> merge_results h (merge_results h rs) = merge_results h rs"
proof -
  define scored where "scored = score_results rs"
  define ordered where "ordered = sort_results scored"
  define out where "out = merge_results h rs"
  let ?R = "\<lambda>a b :: result. get_or (combined_score a) 0 \<ge> get_or (combined_score b) 0"
  have out: "out = dedup_by_hash h {} ordered"
    by (simp add: out_def merge_results_def ordered_def scored_def)
  have 1: "map combined_score (score_results rs)
     = map (\<lambda>r. Some (get_or (score r) 0
                        * (7 / 10 + 3 / 10
                           * (if get_or (content_category r) (ascii ''other'') = ascii ''references''
                              then get_or (priority_score r) (5 / 10) * (3 / 10)
                              else get_or (priority_score r) (5 / 10))))) rs"
    by (simp add: score_results_def combined_score_of_def Let_def)
  have 2: "mset ordered = mset scored"
    by (simp add: ordered_def sort_results_def)
  have 3: "sorted_wrt ?R ordered"
    unfolding ordered_def by (rule sorted_sort_results)
  have 4: "filter (\<lambda>r. hash_key h r = k) out
             = take 1 (filter (\<lambda>r. hash_key h r = k) ordered)" for k
    by (simp add: out filter_dedup_by_hash)
  have set_ordered: "set ordered = set scored"
    using 2 by (rule mset_eq_setD)
  have in_scored: "r\<lparr>combined_score := Some (combined_score_of r)\<rparr> \<in> set ordered"
    if "r \<in> set rs" for r
    using that by (auto simp: set_ordered scored_def score_results_def)
  have 5: "\<exists>x \<in> set out. hash_key h x = hash_key h r
              \<and> get_or (combined_score x) 0 \<ge> combined_score_of r"
    if "r \<in> set rs" for r
  proof -
    let ?r' = "r\<lparr>combined_score := Some (combined_score_of r)\<rparr>"
    let ?cls = "filter (\<lambda>x. hash_key h x = hash_key h r) ordered"
    from in_scored[OF that] have "\<exists>x \<in> set ordered. hash_key h x = hash_key h r"
      by (intro bexI[of _ ?r']) simp_all
    then have ne: "?cls \<noteq> []" by (simp add: filter_empty_conv)
    then have "hd ?cls \<in> set (take 1 ?cls)" by (cases ?cls) auto
    then have "hd ?cls \<in> set (filter (\<lambda>x. hash_key h x = hash_key h r) out)"
      by (simp add: 4)
    then have a: "hd ?cls \<in> set out" and b: "hash_key h (hd ?cls) = hash_key h r"
      by auto
    have "?R (hd ?cls) ?r'"
      by (rule sorted_wrt_hd_filter[OF 3 in_scored[OF that]]) simp_all
    then have "get_or (combined_score (hd ?cls)) 0 \<ge> combined_score_of r"
      by (simp add: get_or_def)
    with a b show ?thesis by blast
  qed
  have 6: "length (filter (\<lambda>x. hash_key h x = hash_key h r) out) = 1"
    if "r \<in> set rs" for r
  proof -
    from in_scored[OF that] have "\<exists>x \<in> set ordered. hash_key h x = hash_key h r"
      by (intro bexI[of _ "r\<lparr>combined_score := Some (combined_score_of r)\<rparr>"]) simp_all
    then have "filter (\<lambda>x. hash_key h x = hash_key h r) ordered \<noteq> []"
      by (simp add: filter_empty_conv)
    then show ?thesis
      by (cases "filter (\<lambda>x. hash_key h x = hash_key h r) ordered") (simp_all add: 4)
  qed
  have 7: "length (filter (\<lambda>x. get_or (content x) [] = get_or (content r) []) out) \<le> 1"
    if "r \<in> set rs" for r
  proof -
    have "length (filter (\<lambda>x. get_or (content x) [] = get_or (content r) []) out)
            \<le> length (filter (\<lambda>x. hash_key h x = hash_key h r) out)"
      by (rule length_filter_mono) (simp add: hash_key_def)
    with 6[OF that] show ?thesis by simp
  qed
  have 8: "length (filter (\<lambda>x. get_or (content x) [] = get_or (content r) []) out) = 1"
    if inj: "inj_on h ((\<lambda>r. get_or (content r) []) ` set rs)" and "r \<in> set rs" for r
  proof -
    have "filter (\<lambda>x. get_or (content x) [] = get_or (content r) []) out
            = filter (\<lambda>x. hash_key h x = hash_key h r) out"
    proof (rule filter_cong[OF refl])
      fix x assume "x \<in> set out"
      then have "x \<in> set scored"
        using set_dedup_by_hash[of h "{}" ordered] by (auto simp: out set_ordered)
      then obtain r0 where "r0 \<in> set rs" "content x = content r0"
        by (auto simp: scored_def score_results_def)
      with inj \<open>r \<in> set rs\<close>
      show "(get_or (content x) [] = get_or (content r) []) = (hash_key h x = hash_key h r)"
        by (auto simp: hash_key_def inj_on_def)
    qed
    with 6[OF \<open>r \<in> set rs\<close>] show ?thesis by simp
  qed
  have 9: "merge_results h [r, r] = [r\<lparr>combined_score := Some (combined_score_of r)\<rparr>]"
    by (simp add: merge_results_def score_results_def sort_results_def Let_def)
  have "score_results out = out"
  proof -
    have "x\<lparr>combined_score := Some (combined_score_of x)\<rparr> = x" if "x \<in> set out" for x
    proof -
      from that have "x \<in> set scored"
        using set_dedup_by_hash[of h "{}" ordered] by (auto simp: out set_ordered)
      then show ?thesis by (auto simp: scored_def score_results_def)
    qed
    then show ?thesis
      unfolding score_results_def by (intro map_idI) simp
  qed
  moreover have "sorted_wrt ?R out"
    unfolding out using 3 by (rule sorted_wrt_dedup_by_hash)
  then have "sort_results out = out" by (rule sort_results_id)
  moreover have "dedup_by_hash h {} out = out"
    by (rule dedup_by_hash_id) (simp_all add: out distinct_dedup_by_hash)
  ultimately have 10: "merge_results h out = out"
    by (simp add: merge_results_def)
  from 1 2 3 4 5 6 7 8 9 10 show ?thesis
    unfolding out_def ordered_def scored_def by blast
qed

text \<open>
  Three raw hits, two of them with the same content \<open>A\<close> (scores 0.5 and 0.7) and one
  with content \<open>B\<close> (score 0.9): the merged list is \<open>B\<close>, then the higher-scored \<open>A\<close>.
\<close>

theorem merge_results_dedup_witness:
  "inj_on example_hash ((\<lambda>r. get_or (content r) []) ` set [chunk_A, chunk_B, chunk_A2])
   \<and> map content (merge_results example_hash [chunk_A, chunk_B, chunk_A2])
       = [Some (ascii ''B''), Some (ascii ''A'')]
   \<and> map combined_score (merge_results example_hash [chunk_A, chunk_B, chunk_A2])
       = [Some (765 / 1000), Some (595 / 1000)]
   \<and> length (filter (\<lambda>x. get_or (content x) [] = get_or (content chunk_A) [])
               (merge_results example_hash [chunk_A, chunk_B, chunk_A2])) = 1
   \<and> length (filter (\<lambda>x. get_or (content x) [] = get_or (content chunk_B) [])
               (merge_results example_hash [chunk_A, chunk_B, chunk_A2])) = 1"
proof -
  have inj: "inj_on example_hash
               ((\<lambda>r. get_or (content r) []) ` set [chunk_A, chunk_B, chunk_A2])"
    by (auto simp: inj_on_def chunk_A_def chunk_B_def chunk_A2_def chunk_def get_or_def
        example_hash_def ascii_def)
  have cs: "combined_score_of (chunk c s t) = s * (85 / 100)" for c s t
    by (simp add: combined_score_of_def Let_def chunk_def get_or_def ascii_eq_iff)
  have m: "merge_results example_hash [chunk_A, chunk_B, chunk_A2]
             = [chunk_B\<lparr>combined_score := Some (765 / 1000)\<rparr>,
                chunk_A2\<lparr>combined_score := Some (595 / 1000)\<rparr>]"
    apply (simp add: merge_results_def score_results_def chunk_A_def chunk_B_def chunk_A2_def cs)
    apply (simp add: sort_results_def get_or_def)
    apply (simp add: chunk_def get_or_def example_hash_def ascii_def)
    done
  then have "map content (merge_results example_hash [chunk_A, chunk_B, chunk_A2])
               = [Some (ascii ''B''), Some (ascii ''A'')]"
    and "map combined_score (merge_results example_hash [chunk_A, chunk_B, chunk_A2])
               = [Some (765 / 1000), Some (595 / 1000)]"
    by (simp_all add: chunk_B_def chunk_A2_def chunk_def)
  moreover
  from merge_results_dedup[of "[chunk_A, chunk_B, chunk_A2]" example_hash] inj
  have "\<forall>r \<in> set [chunk_A, chunk_B, chunk_A2].
         length (filter (\<lambda>x. get_or (content x) [] = get_or (content r) [])
                   (merge_results example_hash [chunk_A, chunk_B, chunk_A2])) = 1"
    by blast
  then have "length (filter (\<lambda>x. get_or (content x) [] = get_or (content chunk_A) [])
               (merge_results example_hash [chunk_A, chunk_B, chunk_A2])) = 1"
    and "length (filter (\<lambda>x. get_or (content x) [] = get_or (content chunk_B) [])
               (merge_results example_hash [chunk_A, chunk_B, chunk_A2])) = 1"
    by (simp_all del: filter.simps)
  ultimately show ?thesis using inj by - (intro conjI, assumption+)
qed

section \<open>Properties of the multi-step executor\<close>

lemma py_index_defined:
  assumes "- int (length xs) \<le> i" and "i < int (length xs)"
  shows "\<exists>x. py_index xs i = Inr x"
  using assms by (auto simp: py_index_def)

lemma execute_steps_total:
  assumes "\<forall>i \<in> set p. - int (length sqs) \<le> i"
  shows "\<exists>st'. execute_steps retrieve cfg sqs step p st = Inr st'"
  using assms
proof (induction p arbitrary: step st)
  case Nil
  then show ?case by simp
next
  case (Cons i p)
  show ?case
  proof (cases "i \<ge> int (length sqs)")
    case True
    with Cons show ?thesis by simp
  next
    case False
    with Cons.prems obtain sq where sq: "py_index sqs i = Inr sq"
      using py_index_defined[of sqs i] by auto
    from Cons.prems have rest: "\<forall>i \<in> set p. - int (length sqs) \<le> i" by simp
    show ?thesis
      using False sq Cons.IH[OF rest]
      by (cases "retrieve (build_query_context cfg st sq i)") simp_all
  qed
qed

text \<open>
  C7. When the retrieval call of a step raises, the step leaves the accumulator and the
  execution context as they were, and the executor goes on with the remaining steps of the
  plan. Whatever the retriever raises and at whichever steps, the executor returns
  normally (the plan holds no index below \<open>-len(sub_queries)\<close>, for which the indexing of
  the sub-query list itself would raise).
\<close>

theorem failed_step_is_skipped:
  assumes "\<forall>i \<in> set (execution_plan d). - int (length (sub_queries d)) \<le> i"
  shows "(\<exists>results st'. execute_decomposed_query retrieve cfg d = Inr (results, st'))
     \<and> (\<forall>i sq e p step st.
           i < int (length sqs) \<and> py_index sqs i = Inr sq
           \<and> retrieve (build_query_context cfg st sq i) = Inl e
           \<longrightarrow> execute_steps retrieve cfg sqs step (i # p) st
                 = execute_steps retrieve cfg sqs (Suc step) p st)"
proof -
  from execute_steps_total[OF assms]
  obtain st' where
    "execute_steps retrieve cfg (sub_queries d) 0 (execution_plan d)
       \<lparr>execution_context = Map.empty, accumulated_results = []\<rparr> = Inr st'"
    by blast
  then have "\<exists>results st'. execute_decomposed_query retrieve cfg d = Inr (results, st')"
    by (simp add: execute_decomposed_query_def)
  then show ?thesis by auto
qed

text \<open>
  In the example the first step fails: the result is the hit of the second step alone, and
  the execution context has an entry for index 1 and none for index 0.
\<close>

theorem failed_step_is_skipped_witness:
  "list_all (\<lambda>i. - int (length (sub_queries two_step_decomposition)) \<le> i)
     (execution_plan two_step_decomposition)
   \<and> failing_on_a (build_query_context default_executor_config
        \<lparr>execution_context = Map.empty, accumulated_results = []\<rparr>
        (SubQuery3 (ascii ''a'') [] 1) 0) = Inl BackendError
   \<and> (\<exists>results st'.
         execute_decomposed_query failing_on_a default_executor_config two_step_decomposition
           = Inr (results, st')
         \<and> results = [chunk_A]
         \<and> accumulated_results st' = [chunk_A]
         \<and> execution_context st' 0 = None
         \<and> execution_context st' 1
             = Some \<lparr>entry_query = ascii ''b'', entry_results = [chunk_A], entry_step = 1\<rparr>)"
proof -
  have plan_ok: "\<forall>i \<in> set (execution_plan two_step_decomposition).
       - int (length (sub_queries two_step_decomposition)) \<le> i"
    by (simp add: two_step_decomposition_def)
  have fails: "failing_on_a (build_query_context default_executor_config
        \<lparr>execution_context = Map.empty, accumulated_results = []\<rparr>
        (SubQuery3 (ascii ''a'') [] 1) 0) = Inl BackendError"
    by (simp add: build_query_context_def SubQuery3_def failing_on_a_def)
  have idx: "py_index (sub_queries two_step_decomposition) 0 = Inr (SubQuery3 (ascii ''a'') [] 1)"
    by (simp add: py_index_def two_step_decomposition_def)
  from failed_step_is_skipped[OF plan_ok, of failing_on_a default_executor_config
      "sub_queries two_step_decomposition"] idx fails
  have skip: "execute_steps failing_on_a default_executor_config
                (sub_queries two_step_decomposition) 0 [0, 1]
                \<lparr>execution_context = Map.empty, accumulated_results = []\<rparr>
              = execute_steps failing_on_a default_executor_config
                (sub_queries two_step_decomposition) (Suc 0) [1]
                \<lparr>execution_context = Map.empty, accumulated_results = []\<rparr>"
    by (simp add: two_step_decomposition_def)
  have "execute_steps failing_on_a default_executor_config
                (sub_queries two_step_decomposition) (Suc 0) [1]
                \<lparr>execution_context = Map.empty, accumulated_results = []\<rparr>
        = Inr \<lparr>execution_context =
                 [1 \<mapsto> \<lparr>entry_query = ascii ''b'', entry_results = [chunk_A], entry_step = 1\<rparr>],
               accumulated_results = [chunk_A]\<rparr>"
    by (simp add: two_step_decomposition_def py_index_def build_query_context_def
        SubQuery3_def failing_on_a_def ascii_eq_iff)
  with skip have "execute_decomposed_query failing_on_a default_executor_config
                    two_step_decomposition
      = Inr (fuse_results default_executor_config [chunk_A],
             \<lparr>execution_context =
                 [1 \<mapsto> \<lparr>entry_query = ascii ''b'', entry_results = [chunk_A], entry_step = 1\<rparr>],
               accumulated_results = [chunk_A]\<rparr>)"
    by (simp add: execute_decomposed_query_def two_step_decomposition_def)
  moreover have "fuse_results default_executor_config [chunk_A] = [chunk_A]"
    by (simp add: fuse_results_def default_executor_config_def)
  ultimately have "\<exists>results st'.
         execute_decomposed_query failing_on_a default_executor_config two_step_decomposition
           = Inr (results, st')
         \<and> results = [chunk_A]
         \<and> accumulated_results st' = [chunk_A]
         \<and> execution_context st' 0 = None
         \<and> execution_context st' 1
             = Some \<lparr>entry_query = ascii ''b'', entry_results = [chunk_A], entry_step = 1\<rparr>"
    by simp
  moreover from plan_ok
  have "list_all (\<lambda>i. - int (length (sub_queries two_step_decomposition)) \<le> i)
          (execution_plan two_step_decomposition)"
    by (simp add: list_all_iff)
  ultimately show ?thesis using fails by - (intro conjI, assumption+)
qed

section \<open>Properties of the result synthesizer\<close>

lemma map_of_empty_hits:
  assumes "\<forall>kr \<in> set sr. snd kr = []" and "map_of sr k = Some results"
  shows "results = []"
proof -
  from assms(2) have "(k, results) \<in> set sr" by (rule map_of_SomeD)
  with assms(1) have "snd (k, results) = []" by blast
  then show ?thesis by simp
qed

lemma map_of_valid_key:
  assumes "\<forall>kr \<in> set sr. lo \<le> fst kr \<and> fst kr < hi" and "map_of sr k = Some results"
  shows "lo \<le> k \<and> k < hi"
proof -
  from assms(2) have "(k, results) \<in> set sr" by (rule map_of_SomeD)
  with assms(1) have "lo \<le> fst (k, results) \<and> fst (k, results) < hi" by blast
  then show ?thesis by simp
qed

lemma prompt_steps_defined:
  assumes "\<forall>kr \<in> set sr. - int (length sqs) \<le> fst kr \<and> fst kr < int (length sqs)"
  shows "\<exists>steps. prompt_steps sqs sr i p = Inr steps"
proof (induction p arbitrary: i)
  case Nil
  then show ?case by simp
next
  case (Cons k p)
  show ?case
  proof (cases "map_of sr k")
    case None
    with Cons show ?thesis by simp
  next
    case (Some results)
    from map_of_valid_key[OF assms Some] obtain sq where "py_index sqs k = Inr sq"
      using py_index_defined[of sqs k] by auto
    moreover from Cons[of "Suc i"] obtain rest where "prompt_steps sqs sr (Suc i) p = Inr rest"
      by auto
    ultimately show ?thesis using Some by simp
  qed
qed

lemma comparative_parts_empty:
  assumes "\<forall>kr \<in> set sr. snd kr = []"
    and "\<forall>kr \<in> set sr. - int (length sqs) \<le> fst kr \<and> fst kr < int (length sqs)"
  shows "comparative_parts sqs sr p = Inr []"
proof (induction p)
  case Nil
  then show ?case by simp
next
  case (Cons k p)
  show ?case
  proof (cases "map_of sr k")
    case None
    with Cons show ?thesis by simp
  next
    case (Some results)
    from map_of_valid_key[OF assms(2) Some] obtain sq where "py_index sqs k = Inr sq"
      using py_index_defined[of sqs k] by auto
    moreover from map_of_empty_hits[OF assms(1) Some] have "results = []" .
    ultimately show ?thesis using Some Cons by simp
  qed
qed

lemma multi_aspect_parts_empty:
  assumes "\<forall>kr \<in> set sr. snd kr = []"
    and "\<forall>kr \<in> set sr. - int (length sqs) \<le> fst kr \<and> fst kr < int (length sqs)"
  shows "synthesize_multi_aspect_parts sqs sr p = Inr []"
proof (induction p)
  case Nil
  then show ?case by simp
next
  case (Cons k p)
  show ?case
  proof (cases "map_of sr k")
    case None
    with Cons show ?thesis by simp
  next
    case (Some results)
    from map_of_valid_key[OF assms(2) Some] obtain sq where "py_index sqs k = Inr sq"
      using py_index_defined[of sqs k] by auto
    moreover from map_of_empty_hits[OF assms(1) Some] have "results = []" .
    ultimately show ?thesis using Some Cons by simp
  qed
qed

lemma general_parts_empty:
  assumes "\<forall>kr \<in> set sr. snd kr = []"
  shows "synthesize_general_parts sr p = []"
proof (induction p)
  case Nil
  then show ?case by simp
next
  case (Cons k p)
  then show ?case
    using map_of_empty_hits[OF assms, of k]
    by (cases "map_of sr k") simp_all
qed

lemma rule_based_synthesize_empty:
  assumes "\<forall>kr \<in> set sr. snd kr = []"
    and "\<forall>kr \<in> set sr. - int (length (sub_queries d)) \<le> fst kr
                          \<and> fst kr < int (length (sub_queries d))"
  shows "rule_based_synthesize d sr = Inr no_information_for_question"
proof -
  have "synthesize_comparative_results d sr = Inr []"
    using map_of_empty_hits[OF assms(1), of "last (execution_plan d)"]
    by (cases "map_of sr (last (execution_plan d))")
       (simp_all add: synthesize_comparative_results_def comparative_parts_empty[OF assms])
  then show ?thesis
    by (simp add: rule_based_synthesize_def multi_aspect_parts_empty[OF assms]
        general_parts_empty[OF assms(1)])
qed

text \<open>
  C8, as the specification states it, fails when a language model is configured and two or
  more sub-queries were executed: the answer is then the reply of the model to the
  synthesis prompt, whatever it is. For a model that replies with the empty text, and two
  sub-queries without hits, the synthesizer returns the empty string.
\<close>

theorem synthesize_empty_reply_counterexample:
  "synthesize_results (Some silent_llm) default_synthesizer_config first_hit_answer
     (ascii ''a b'') two_step_decomposition [(0, []), (1, [])] = Inr []"
proof -
  have "\<forall>kr \<in> set [(0 :: int, [] :: result list), (1, [])].
          - int (length (sub_queries two_step_decomposition)) \<le> fst kr
          \<and> fst kr < int (length (sub_queries two_step_decomposition))"
    by (simp add: two_step_decomposition_def)
  from prompt_steps_defined[OF this, of 0 "execution_plan two_step_decomposition"]
  obtain prompt where
    "build_synthesis_prompt default_synthesizer_config (ascii ''a b'') two_step_decomposition
       [(0, []), (1, [])] = Inr prompt"
    by (auto simp: build_synthesis_prompt_def)
  then show ?thesis
    by (simp add: synthesize_results_def llm_synthesize_def silent_llm_def
        post_process_answer_def py_strip_def default_synthesizer_config_def)
qed

text \<open>
  C8, amended. Let every sub-query have an empty list of hits, the keys of \<open>sub_results\<close>
  being indices of the sub-query list (as the executor produces them). Then the synthesizer
  returns normally. Without a language model, or with at most one entry in
  \<open>sub_results\<close>, the answer is one of the two fixed, non-empty "no relevant information"
  texts. With a language model and two or more entries the answer is the post-processed
  reply of the model to the synthesis prompt, and the second fixed text when the model
  raises or gives no assistant reply.
\<close>

theorem synthesize_without_hits:
  assumes "\<forall>kr \<in> set sr. snd kr = []"
    and "\<forall>kr \<in> set sr. - int (length (sub_queries d)) \<le> fst kr
                          \<and> fst kr < int (length (sub_queries d))"
  shows "(\<exists>answer. synthesize_results llm_opt cfg answer_from_hits oq d sr = Inr answer)
     \<and> (llm_opt = None \<or> length sr \<le> 1 \<longrightarrow>
          synthesize_results llm_opt cfg answer_from_hits oq d sr = Inr no_information
          \<or> synthesize_results llm_opt cfg answer_from_hits oq d sr
              = Inr no_information_for_question)
     \<and> (\<forall>l. llm_opt = Some l \<and> 2 \<le> length sr \<longrightarrow>
          (\<exists>prompt. build_synthesis_prompt cfg oq d sr = Inr prompt
             \<and> synthesize_results llm_opt cfg answer_from_hits oq d sr
                 = (case l prompt of
                      Reply c \<Rightarrow> Inr (post_process_answer cfg (py_strip c))
                    | NoReply \<Rightarrow> Inr no_information_for_question
                    | Raises \<Rightarrow> Inr no_information_for_question)))
     \<and> no_information \<noteq> [] \<and> no_information_for_question \<noteq> []"
proof -
  note rb = rule_based_synthesize_empty[OF assms]
  from prompt_steps_defined[OF assms(2), of 0 "execution_plan d"]
  obtain prompt where prompt: "build_synthesis_prompt cfg oq d sr = Inr prompt"
    by (auto simp: build_synthesis_prompt_def)
  have one: "synthesize_results llm_opt cfg answer_from_hits oq d sr = Inr no_information"
    if "length sr \<le> 1"
  proof (cases sr)
    case Nil
    then show ?thesis by (simp add: synthesize_results_def)
  next
    case (Cons kr rest)
    with that have "rest = []" by simp
    with Cons assms(1) show ?thesis
      by (simp add: synthesize_results_def generate_simple_answer_def)
  qed
  have none: "synthesize_results None cfg answer_from_hits oq d sr
                = Inr no_information_for_question"
    if "2 \<le> length sr"
    using that rb by (auto simp: synthesize_results_def)
  have some: "synthesize_results (Some l) cfg answer_from_hits oq d sr
      = (case l prompt of
           Reply c \<Rightarrow> Inr (post_process_answer cfg (py_strip c))
         | NoReply \<Rightarrow> Inr no_information_for_question
         | Raises \<Rightarrow> Inr no_information_for_question)"
    if "2 \<le> length sr" for l
    using that rb prompt
    by (auto simp: synthesize_results_def llm_synthesize_def split: llm_reply.splits)
  have a: "\<exists>answer. synthesize_results llm_opt cfg answer_from_hits oq d sr = Inr answer"
  proof (cases "length sr \<le> 1")
    case True
    with one show ?thesis by simp
  next
    case False
    then have len: "2 \<le> length sr" by simp
    show ?thesis
    proof (cases llm_opt)
      case None
      with none[OF len] show ?thesis by simp
    next
      case (Some l)
      with some[OF len, of l] show ?thesis by (cases "l prompt") simp_all
    qed
  qed
  have b: "synthesize_results llm_opt cfg answer_from_hits oq d sr = Inr no_information
          \<or> synthesize_results llm_opt cfg answer_from_hits oq d sr
              = Inr no_information_for_question"
    if "llm_opt = None \<or> length sr \<le> 1"
  proof (cases "length sr \<le> 1")
    case True
    with one show ?thesis by simp
  next
    case False
    with that none show ?thesis by simp
  qed
  have c: "\<exists>prompt. build_synthesis_prompt cfg oq d sr = Inr prompt
             \<and> synthesize_results llm_opt cfg answer_from_hits oq d sr
                 = (case l prompt of
                      Reply c \<Rightarrow> Inr (post_process_answer cfg (py_strip c))
                    | NoReply \<Rightarrow> Inr no_information_for_question
                    | Raises \<Rightarrow> Inr no_information_for_question)"
    if "llm_opt = Some l \<and> 2 \<le> length sr" for l
    using that prompt some[of l] by auto
  have d: "no_information \<noteq> []" "no_information_for_question \<noteq> []"
    by (simp_all add: no_information_def no_information_for_question_def)
  from a b c d show ?thesis by blast
qed

theorem synthesize_without_hits_witness:
  "list_all (\<lambda>kr. snd kr = []) [(0 :: int, [] :: result list), (1, [])]
   \<and> list_all (\<lambda>kr. - int (length (sub_queries two_step_decomposition)) \<le> fst kr
                      \<and> fst kr < int (length (sub_queries two_step_decomposition)))
         [(0 :: int, [] :: result list), (1, [])]
   \<and> synthesize_results None default_synthesizer_config first_hit_answer (ascii ''a b'')
         two_step_decomposition [(0, []), (1, [])] = Inr no_information_for_question
   \<and> no_information_for_question \<noteq> []"
proof -
  have e: "\<forall>kr \<in> set [(0 :: int, [] :: result list), (1, [])]. snd kr = []"
    by simp
  have v: "\<forall>kr \<in> set [(0 :: int, [] :: result list), (1, [])].
         - int (length (sub_queries two_step_decomposition)) \<le> fst kr
         \<and> fst kr < int (length (sub_queries two_step_decomposition))"
    by (simp add: two_step_decomposition_def)
  have g: "synthesize_general_parts [(0, []), (1, [])] (execution_plan two_step_decomposition)
             = []"
    by (simp add: two_step_decomposition_def)
  have "synthesize_results None default_synthesizer_config first_hit_answer (ascii ''a b'')
         two_step_decomposition [(0, []), (1, [])] = Inr no_information_for_question"
    by (simp add: synthesize_results_def rule_based_synthesize_def g)
       (simp add: two_step_decomposition_def ascii_eq_iff)
  moreover
  from synthesize_without_hits[OF e v, of None default_synthesizer_config first_hit_answer
      "ascii ''a b''"]
  have "no_information_for_question \<noteq> []" by blast
  moreover from e have "list_all (\<lambda>kr. snd kr = []) [(0 :: int, [] :: result list), (1, [])]"
    by (simp only: list_all_iff)
  moreover from v
  have "list_all (\<lambda>kr. - int (length (sub_queries two_step_decomposition)) \<le> fst kr
                      \<and> fst kr < int (length (sub_queries two_step_decomposition)))
         [(0 :: int, [] :: result list), (1, [])]"
    by (simp only: list_all_iff)
  ultimately show ?thesis by - (intro conjI, assumption+)
qed


end
